theory Spec2Isabelle
  imports Main "HOL-Library.Signed_Division"
begin

section \<open>Tokens (token.h)\<close>

text \<open>
  The enumeration \<open>TokenType\<close>. The constructors carry the prefix \<open>T_\<close> because
  \<open>plus\<close>, \<open>minus\<close>, \<open>divide\<close>, \<open>modulo\<close> and \<open>end\<close> are taken in HOL.
\<close>

datatype TokenType =
    T_arrow
  | T_comma
  | T_divide
  | T_end
  | T_func_keyword
  | T_identifier
  | T_left_curly
  | T_left_paren
  | T_minus
  | T_modulo
  | T_multiply
  | T_plus
  | T_return_keyword
  | T_right_curly
  | T_right_paren
  | T_semicolon

text \<open>
  \<open>struct Token\<close>. The two \<open>int\<close> fields are modelled as unbounded integers: they count
  lines and columns of the source, and exceeding \<open>INT_MAX\<close> is undefined in C++.
\<close>

record Token =
  type :: TokenType
  lexeme :: string
  line_number :: int
  column_number :: int

section \<open>The lexer (lexer.h, lexer.cpp)\<close>

datatype LexerState =
    L_cr_or_crlf
  | L_divide_or_comment
  | L_identifier_or_keyword
  | L_minus_or_arrow
  | L_multi_line_comment
  | L_multi_line_comment_cr_or_crlf
  | L_multi_line_comment_maybe_end
  | L_single_line_comment
  | L_start

text \<open>
  The data members of \<open>class Lexer\<close>, each with the prefix \<open>lx_\<close> in place of the
  trailing underscore. The two indices are \<open>std::string::size_type\<close>; they only ever
  grow by one and stay below the size of the source, so they are natural numbers.
\<close>

record Lexer =
  lx_source :: string
  lx_state :: LexerState
  lx_index :: nat
  lx_start_index :: nat
  lx_line_number :: int
  lx_start_line_number :: int
  lx_column_number :: int
  lx_start_column_number :: int
  lx_columns_per_tab :: int
  lx_tokens :: "Token list"

text \<open>
  The constructor \<open>Lexer::Lexer\<close>. It leaves \<open>start_index_\<close>, \<open>start_line_number_\<close>
  and \<open>start_column_number_\<close> uninitialised; the run begins in the start state, which
  assigns all three before anything reads them, so the model takes 0 for them.
\<close>

definition new_Lexer :: "string \<Rightarrow> Lexer" where
  "new_Lexer src =
     \<lparr> lx_source = src, lx_state = L_start, lx_index = 0, lx_start_index = 0,
       lx_line_number = 1, lx_start_line_number = 0,
       lx_column_number = 1, lx_start_column_number = 0,
       lx_columns_per_tab = 2, lx_tokens = [] \<rparr>"

definition set_columns_per_tab :: "int \<Rightarrow> Lexer \<Rightarrow> Lexer" where
  "set_columns_per_tab w L = L\<lparr>lx_columns_per_tab := w\<rparr>"

text \<open>
  \<open>get_keyword_token_type\<close>: the keyword table has the two entries \<open>func\<close> and
  \<open>return\<close>.
\<close>

definition get_keyword_token_type :: "string \<Rightarrow> TokenType" where
  "get_keyword_token_type lx =
     (if lx = ''func'' then T_func_keyword
      else if lx = ''return'' then T_return_keyword
      else T_identifier)"

text \<open>
  \<open>isalpha\<close> and \<open>isalnum\<close> of the C library in the "C" locale (the program never
  calls \<open>setlocale\<close>): the ASCII letters, and the ASCII letters and digits.
\<close>

definition isalpha :: "char \<Rightarrow> bool" where
  "isalpha c = (let n = (of_char c :: nat) in (65 \<le> n \<and> n \<le> 90) \<or> (97 \<le> n \<and> n \<le> 122))"

definition isalnum :: "char \<Rightarrow> bool" where
  "isalnum c = (isalpha c \<or> (let n = (of_char c :: nat) in 48 \<le> n \<and> n \<le> 57))"

text \<open>
  \<open>current_char\<close> is \<open>source_[index_]\<close>. On a \<open>std::string\<close> the index equal to the
  size reads the terminating \<open>'\0'\<close> that the string keeps itself; this is what the
  else branch returns.
\<close>

definition current_char :: "Lexer \<Rightarrow> char" where
  "current_char L =
     (if lx_index L < length (lx_source L) then lx_source L ! lx_index L else CHR 0x00)"

definition start_lexeme :: "Lexer \<Rightarrow> Lexer" where
  "start_lexeme L =
     L\<lparr> lx_start_index := lx_index L,
        lx_start_line_number := lx_line_number L,
        lx_start_column_number := lx_column_number L \<rparr>"

text \<open>
  \<open>source_.size() - 1\<close> is computed in the unsigned 64-bit \<open>size_type\<close>: for the empty
  source it wraps around to \<open>2^64 - 1\<close>.
\<close>

definition size_minus_1 :: "string \<Rightarrow> nat" where
  "size_minus_1 s = (if length s = 0 then 2 ^ 64 - 1 else length s - 1)"

definition advance_char :: "Lexer \<Rightarrow> Lexer" where
  "advance_char L =
     (if lx_index L = size_minus_1 (lx_source L) then L
      else L\<lparr> lx_index := lx_index L + 1, lx_column_number := lx_column_number L + 1 \<rparr>)"

definition advance_line :: "Lexer \<Rightarrow> Lexer" where
  "advance_line L = L\<lparr> lx_line_number := lx_line_number L + 1, lx_column_number := 1 \<rparr>"

text \<open>
  \<open>advance_tab\<close>: \<open>(column_number_ + columns_per_tab_) / columns_per_tab_ * columns_per_tab_\<close>
  on \<open>int\<close>. The division of C++ truncates towards zero (\<open>sdiv\<close>), and dividing by zero
  is undefined: the model returns \<open>None\<close> there.
\<close>

definition advance_tab :: "Lexer \<Rightarrow> Lexer option" where
  "advance_tab L =
     (if lx_columns_per_tab L = 0 then None
      else Some (L\<lparr> lx_column_number :=
              (lx_column_number L + lx_columns_per_tab L) sdiv lx_columns_per_tab L
                * lx_columns_per_tab L \<rparr>))"

definition get_lexeme :: "Lexer \<Rightarrow> string" where
  "get_lexeme L =
     (let size = lx_index L - lx_start_index L
      in if size = 0 then [] else take size (drop (lx_start_index L) (lx_source L)))"

definition add_token :: "TokenType \<Rightarrow> Lexer \<Rightarrow> Lexer" where
  "add_token token_type L =
     L\<lparr> lx_tokens := lx_tokens L @
          [\<lparr> type = token_type, lexeme = get_lexeme L,
             line_number = lx_start_line_number L,
             column_number = lx_start_column_number L \<rparr>] \<rparr>"

text \<open>
  One iteration of the \<open>while (true)\<close> loop of \<open>Lexer::run\<close>: the lexer goes on in a
  new state (\<open>Next\<close>), returns its token list (\<open>Done\<close>), or divides by zero in
  \<open>advance_tab\<close> (\<open>Fault\<close>). The type \<open>fault\<close> lists the undefined operations of
  the program: the division by zero, the dereference of a null \<open>shared_ptr\<close>, and the
  dereference of an iterator that stands at the end of its vector.
\<close>

datatype fault = Division_by_zero | Null_dereference | Past_the_end

datatype lexer_step_result = Next Lexer | Done "Token list" | Fault fault

definition set_state :: "LexerState \<Rightarrow> Lexer \<Rightarrow> Lexer" where
  "set_state s L = L\<lparr>lx_state := s\<rparr>"

definition single_char_token :: "TokenType \<Rightarrow> Lexer \<Rightarrow> lexer_step_result" where
  "single_char_token t L = Next (set_state L_start (add_token t (advance_char L)))"

definition step_start :: "Lexer \<Rightarrow> lexer_step_result" where
  "step_start L0 =
     (let L = start_lexeme L0; c = current_char L in
      if isalpha c \<or> c = CHR ''_'' then
        Next (set_state L_identifier_or_keyword (advance_char L))
      else if c = CHR ''+'' then single_char_token T_plus L
      else if c = CHR ''*'' then single_char_token T_multiply L
      else if c = CHR ''%'' then single_char_token T_modulo L
      else if c = CHR '','' then single_char_token T_comma L
      else if c = CHR '';'' then single_char_token T_semicolon L
      else if c = CHR ''{'' then single_char_token T_left_curly L
      else if c = CHR ''}'' then single_char_token T_right_curly L
      else if c = CHR ''('' then single_char_token T_left_paren L
      else if c = CHR '')'' then single_char_token T_right_paren L
      else if c = CHR 0x0A then Next (advance_line (advance_char L))
      else if c = CHR 0x0D then Next (set_state L_cr_or_crlf (advance_char L))
      else if c = CHR 0x09 then
        (case advance_tab (advance_char L) of
           None \<Rightarrow> Fault Division_by_zero
         | Some L' \<Rightarrow> Next L')
      else if c = CHR '' '' then Next (advance_char L)
      else if c = CHR ''/'' then Next (set_state L_divide_or_comment (advance_char L))
      else if c = CHR ''-'' then Next (set_state L_minus_or_arrow (advance_char L))
      else if c = CHR 0x00 then Done (lx_tokens (add_token T_end L))
      else Next L)"

definition lexer_step :: "Lexer \<Rightarrow> lexer_step_result" where
  "lexer_step L =
     (case lx_state L of
        L_cr_or_crlf \<Rightarrow>
          Next (set_state L_start (advance_line
            (if current_char L = CHR 0x0A then advance_char L else L)))
      | L_divide_or_comment \<Rightarrow>
          (if current_char L = CHR ''/'' then
             Next (set_state L_single_line_comment (advance_char L))
           else if current_char L = CHR ''*'' then
             Next (set_state L_multi_line_comment (advance_char L))
           else Next (set_state L_start (add_token T_divide L)))
      | L_identifier_or_keyword \<Rightarrow>
          (if isalnum (current_char L) \<or> current_char L = CHR ''_'' then
             Next (advance_char L)
           else Next (set_state L_start
                        (add_token (get_keyword_token_type (get_lexeme L)) L)))
      | L_minus_or_arrow \<Rightarrow>
          (if current_char L = CHR ''>'' then
             Next (set_state L_start (add_token T_arrow (advance_char L)))
           else Next (set_state L_start (add_token T_minus L)))
      | L_multi_line_comment \<Rightarrow>
          (if current_char L = CHR 0x0A then Next (advance_line (advance_char L))
           else if current_char L = CHR 0x0D then
             Next (set_state L_multi_line_comment_cr_or_crlf (advance_char L))
           else if current_char L = CHR ''*'' then
             Next (set_state L_multi_line_comment_maybe_end (advance_char L))
           else Next (advance_char L))
      | L_multi_line_comment_cr_or_crlf \<Rightarrow>
          Next (set_state L_multi_line_comment (advance_line
            (if current_char L = CHR 0x0A then advance_char L else L)))
      | L_multi_line_comment_maybe_end \<Rightarrow>
          (if current_char L = CHR ''/'' then Next (set_state L_start (advance_char L))
           else Next (set_state L_multi_line_comment L))
      | L_single_line_comment \<Rightarrow>
          (if current_char L = CHR 0x0A then
             Next (set_state L_start (advance_line (advance_char L)))
           else if current_char L = CHR 0x0D then
             Next (set_state L_cr_or_crlf (advance_char L))
           else Next (advance_char L))
      | L_start \<Rightarrow> step_start L)"

text \<open>
  \<open>Lexer::run\<close>: the loop, bounded by a number of iterations. \<open>None\<close> says that the
  loop has not returned within \<open>n\<close> iterations.
\<close>

fun run_fuel :: "nat \<Rightarrow> Lexer \<Rightarrow> (fault + Token list) option" where
  "run_fuel 0 L = None"
| "run_fuel (Suc n) L =
     (case lexer_step L of
        Next L' \<Rightarrow> run_fuel n L'
      | Done ts \<Rightarrow> Some (Inr ts)
      | Fault e \<Rightarrow> Some (Inl e))"

section \<open>The program graph (graph.h)\<close>

text \<open>
  Every entity lives behind a \<open>std::shared_ptr\<close>. An address stands for a non-null
  pointer, \<open>addr option\<close> for a pointer that may be null. The memory is one table per
  class, from addresses to objects of that class, with one counter of allocated
  addresses for all of them, so that an address names at most one object.
\<close>

type_synonym addr = nat

text \<open>The base class \<open>Entity\<close>: a name and the back-reference to the container.\<close>

record Entity =
  name :: string
  parent :: "addr option"

type_synonym Class = Entity

record Package = Entity +
  class_entities :: "addr list"
  function_entities :: "addr list"

datatype ReturnType = R_none | R_value

record Function = Entity +
  return_type :: ReturnType
  return_class :: "addr option"
  object_entities :: "addr list"
  statement_entities :: "addr list"

record Object = Entity +
  cls :: "addr option"

datatype OperatorType = O_plus

text \<open>
  The classes below \<open>Statement\<close>. A \<open>shared_ptr<Statement>\<close> may point to an object
  of any of them, and \<open>dynamic_pointer_cast\<close> asks which: the record keeps the class of
  the object in \<open>dynamic_type\<close>, next to the data members of \<open>ReturnStatement\<close>
  (\<open>expression\<close>), \<open>ObjectExpression\<close> (\<open>object\<close>) and \<open>OperatorExpression\<close>
  (\<open>operator_type\<close>, \<open>expression_entities\<close>); an object only uses the members of
  its own class.
\<close>

datatype StatementClass =
    C_Statement
  | C_ReturnStatement
  | C_Expression
  | C_ObjectExpression
  | C_OperatorExpression

record Statement = Entity +
  dynamic_type :: StatementClass
  expression :: "addr option"
  object :: "addr option"
  operator_type :: OperatorType
  expression_entities :: "addr list"

record Graph =
  mem_Package :: "addr \<Rightarrow> Package"
  mem_Class :: "addr \<Rightarrow> Class"
  mem_Function :: "addr \<Rightarrow> Function"
  mem_Object :: "addr \<Rightarrow> Object"
  mem_Statement :: "addr \<Rightarrow> Statement"
  allocated :: nat

subsection \<open>The template \<open>EntityContainer\<close>\<close>

text \<open>
  The three operations are written once, over the vector \<open>entities_\<close> of the container
  and the table \<open>h\<close> of the contained class; \<open>self\<close> is the address of the container
  (\<open>shared_from_this()\<close>).

  \<open>get\<close>: the range-based loop returns the first entity with the name, or \<open>nullptr\<close>.
\<close>

fun EntityContainer_get ::
  "(addr \<Rightarrow> 'a Entity_scheme) \<Rightarrow> addr list \<Rightarrow> string \<Rightarrow> addr option" where
  "EntityContainer_get h [] nm = None"
| "EntityContainer_get h (entity # entities) nm =
     (if name (h entity) = nm then Some entity else EntityContainer_get h entities nm)"

definition EntityContainer_add ::
  "addr \<Rightarrow> addr \<Rightarrow> addr list \<Rightarrow> (addr \<Rightarrow> 'a Entity_scheme)
     \<Rightarrow> addr list \<times> (addr \<Rightarrow> 'a Entity_scheme)" where
  "EntityContainer_add self entity entities h =
     (entities @ [entity], h(entity := (h entity)\<lparr>parent := Some self\<rparr>))"

text \<open>\<open>std::find\<close> as a position: the length of the list stands for \<open>end()\<close>.\<close>

fun std_find :: "addr list \<Rightarrow> addr \<Rightarrow> nat" where
  "std_find [] entity = 0"
| "std_find (x # xs) entity = (if x = entity then 0 else Suc (std_find xs entity))"

definition erase :: "addr list \<Rightarrow> nat \<Rightarrow> addr list" where
  "erase entities i = take i entities @ drop (Suc i) entities"

text \<open>
  \<open>remove\<close>. The source reads
  \<^verbatim>\<open>entities_.erase(iterator); iterator->parent_ = nullptr;\<close>
  As written, \<open>iterator->parent_\<close> names a member of \<open>std::shared_ptr\<close>, which has
  none of that name: the template compiles only because the program never calls it.
  The model takes the statement for the assignment of \<open>nullptr\<close> to the \<open>parent_\<close>
  of the entity that the iterator points to, the one reading under which it assigns
  a back-reference at all. It runs after the erasure, when the elements behind the
  erased one have moved down by one place. (The standard declares the iterator
  invalid from then on; an iterator of a vector is a position in its storage, and
  the model reads it as that position.) The iterator then stands at the entity that
  followed the erased one, or at the end of the vector, where dereferencing it is
  undefined.
\<close>

definition EntityContainer_remove ::
  "addr \<Rightarrow> addr list \<Rightarrow> (addr \<Rightarrow> 'a Entity_scheme)
     \<Rightarrow> fault + addr list \<times> (addr \<Rightarrow> 'a Entity_scheme)" where
  "EntityContainer_remove entity entities h =
     (let iterator = std_find entities entity in
      if iterator \<noteq> length entities then
        (let entities' = erase entities iterator in
         if iterator < length entities' then
           Inr (entities',
                h(entities' ! iterator := (h (entities' ! iterator))\<lparr>parent := None\<rparr>))
         else Inl Past_the_end)
      else Inr (entities, h))"

subsection \<open>Allocation and the members of the classes\<close>

text \<open>
  \<open>std::make_shared<T>()\<close> value-initialises the new object: the name is empty, every
  pointer is null, every vector is empty and an enumeration has its first value.
\<close>

definition new_Entity :: Entity where
  "new_Entity = \<lparr> name = [], parent = None \<rparr>"

definition make_shared_Package :: "Graph \<Rightarrow> addr \<times> Graph" where
  "make_shared_Package g =
     (allocated g,
      g\<lparr> mem_Package := (mem_Package g)(allocated g :=
             \<lparr> name = [], parent = None, class_entities = [], function_entities = [] \<rparr>),
         allocated := allocated g + 1 \<rparr>)"

definition make_shared_Class :: "Graph \<Rightarrow> addr \<times> Graph" where
  "make_shared_Class g =
     (allocated g,
      g\<lparr> mem_Class := (mem_Class g)(allocated g := new_Entity),
         allocated := allocated g + 1 \<rparr>)"

definition make_shared_Function :: "Graph \<Rightarrow> addr \<times> Graph" where
  "make_shared_Function g =
     (allocated g,
      g\<lparr> mem_Function := (mem_Function g)(allocated g :=
             \<lparr> name = [], parent = None, return_type = R_none, return_class = None,
               object_entities = [], statement_entities = [] \<rparr>),
         allocated := allocated g + 1 \<rparr>)"

definition make_shared_Object :: "Graph \<Rightarrow> addr \<times> Graph" where
  "make_shared_Object g =
     (allocated g,
      g\<lparr> mem_Object := (mem_Object g)(allocated g :=
             \<lparr> name = [], parent = None, cls = None \<rparr>),
         allocated := allocated g + 1 \<rparr>)"

definition make_shared_Statement :: "StatementClass \<Rightarrow> Graph \<Rightarrow> addr \<times> Graph" where
  "make_shared_Statement c g =
     (allocated g,
      g\<lparr> mem_Statement := (mem_Statement g)(allocated g :=
             \<lparr> name = [], parent = None, dynamic_type = c, expression = None,
               object = None, operator_type = O_plus, expression_entities = [] \<rparr>),
         allocated := allocated g + 1 \<rparr>)"

text \<open>The setters, each on the object at an address.\<close>

definition Package_set_name :: "addr \<Rightarrow> string \<Rightarrow> Graph \<Rightarrow> Graph" where
  "Package_set_name p nm g =
     g\<lparr> mem_Package := (mem_Package g)(p := (mem_Package g p)\<lparr>name := nm\<rparr>) \<rparr>"

definition Class_set_name :: "addr \<Rightarrow> string \<Rightarrow> Graph \<Rightarrow> Graph" where
  "Class_set_name c nm g =
     g\<lparr> mem_Class := (mem_Class g)(c := (mem_Class g c)\<lparr>name := nm\<rparr>) \<rparr>"

definition Function_set_name :: "addr \<Rightarrow> string \<Rightarrow> Graph \<Rightarrow> Graph" where
  "Function_set_name f nm g =
     g\<lparr> mem_Function := (mem_Function g)(f := (mem_Function g f)\<lparr>name := nm\<rparr>) \<rparr>"

definition Object_set_name :: "addr \<Rightarrow> string \<Rightarrow> Graph \<Rightarrow> Graph" where
  "Object_set_name ob nm g =
     g\<lparr> mem_Object := (mem_Object g)(ob := (mem_Object g ob)\<lparr>name := nm\<rparr>) \<rparr>"

definition set_return_type :: "addr \<Rightarrow> ReturnType \<Rightarrow> Graph \<Rightarrow> Graph" where
  "set_return_type f rt g =
     g\<lparr> mem_Function := (mem_Function g)(f := (mem_Function g f)\<lparr>return_type := rt\<rparr>) \<rparr>"

definition set_return_class :: "addr \<Rightarrow> addr option \<Rightarrow> Graph \<Rightarrow> Graph" where
  "set_return_class f c g =
     g\<lparr> mem_Function := (mem_Function g)(f := (mem_Function g f)\<lparr>return_class := c\<rparr>) \<rparr>"

definition set_cls :: "addr \<Rightarrow> addr option \<Rightarrow> Graph \<Rightarrow> Graph" where
  "set_cls ob c g =
     g\<lparr> mem_Object := (mem_Object g)(ob := (mem_Object g ob)\<lparr>cls := c\<rparr>) \<rparr>"

definition set_expression :: "addr \<Rightarrow> addr option \<Rightarrow> Graph \<Rightarrow> Graph" where
  "set_expression r e g =
     g\<lparr> mem_Statement := (mem_Statement g)(r := (mem_Statement g r)\<lparr>expression := e\<rparr>) \<rparr>"

definition set_object :: "addr \<Rightarrow> addr option \<Rightarrow> Graph \<Rightarrow> Graph" where
  "set_object e ob g =
     g\<lparr> mem_Statement := (mem_Statement g)(e := (mem_Statement g e)\<lparr>object := ob\<rparr>) \<rparr>"

definition set_operator_type :: "addr \<Rightarrow> OperatorType \<Rightarrow> Graph \<Rightarrow> Graph" where
  "set_operator_type e ot g =
     g\<lparr> mem_Statement := (mem_Statement g)(e := (mem_Statement g e)\<lparr>operator_type := ot\<rparr>) \<rparr>"

text \<open>
  The instances of \<open>EntityContainer\<close> that the classes inherit: \<open>get_class\<close> and
  \<open>get_function\<close> of \<open>Package\<close>, \<open>get_object\<close> of \<open>Function\<close>, and the \<open>add\<close> of
  each container, which stores the new vector in the container and the new
  back-reference in the table of the contained class.
\<close>

definition get_class :: "Graph \<Rightarrow> addr \<Rightarrow> string \<Rightarrow> addr option" where
  "get_class g p nm = EntityContainer_get (mem_Class g) (class_entities (mem_Package g p)) nm"

definition get_function :: "Graph \<Rightarrow> addr \<Rightarrow> string \<Rightarrow> addr option" where
  "get_function g p nm =
     EntityContainer_get (mem_Function g) (function_entities (mem_Package g p)) nm"

definition get_object :: "Graph \<Rightarrow> addr \<Rightarrow> string \<Rightarrow> addr option" where
  "get_object g f nm = EntityContainer_get (mem_Object g) (object_entities (mem_Function g f)) nm"

definition Package_add_Class :: "addr \<Rightarrow> addr \<Rightarrow> Graph \<Rightarrow> Graph" where
  "Package_add_Class p entity g =
     (case EntityContainer_add p entity (class_entities (mem_Package g p)) (mem_Class g) of
        (es, h) \<Rightarrow>
          g\<lparr> mem_Package := (mem_Package g)(p := (mem_Package g p)\<lparr>class_entities := es\<rparr>),
             mem_Class := h \<rparr>)"

definition Package_add_Function :: "addr \<Rightarrow> addr \<Rightarrow> Graph \<Rightarrow> Graph" where
  "Package_add_Function p entity g =
     (case EntityContainer_add p entity (function_entities (mem_Package g p)) (mem_Function g) of
        (es, h) \<Rightarrow>
          g\<lparr> mem_Package := (mem_Package g)(p := (mem_Package g p)\<lparr>function_entities := es\<rparr>),
             mem_Function := h \<rparr>)"

definition Function_add_Object :: "addr \<Rightarrow> addr \<Rightarrow> Graph \<Rightarrow> Graph" where
  "Function_add_Object f entity g =
     (case EntityContainer_add f entity (object_entities (mem_Function g f)) (mem_Object g) of
        (es, h) \<Rightarrow>
          g\<lparr> mem_Function := (mem_Function g)(f := (mem_Function g f)\<lparr>object_entities := es\<rparr>),
             mem_Object := h \<rparr>)"

definition Function_add_Statement :: "addr \<Rightarrow> addr \<Rightarrow> Graph \<Rightarrow> Graph" where
  "Function_add_Statement f entity g =
     (case EntityContainer_add f entity (statement_entities (mem_Function g f)) (mem_Statement g) of
        (es, h) \<Rightarrow>
          g\<lparr> mem_Function := (mem_Function g)(f := (mem_Function g f)\<lparr>statement_entities := es\<rparr>),
             mem_Statement := h \<rparr>)"

text \<open>
  An \<open>OperatorExpression\<close> contains expressions and is one: the container and the
  entity are in the same table.
\<close>

definition OperatorExpression_add :: "addr \<Rightarrow> addr \<Rightarrow> Graph \<Rightarrow> Graph" where
  "OperatorExpression_add c entity g =
     (case EntityContainer_add c entity (expression_entities (mem_Statement g c)) (mem_Statement g) of
        (es, h) \<Rightarrow> g\<lparr> mem_Statement := h(c := (h c)\<lparr>expression_entities := es\<rparr>) \<rparr>)"

section \<open>The parser (parser.h, parser.cpp)\<close>

datatype ParserState =
    P_expression_operator
  | P_expression_value
  | P_func_params_start
  | P_func_name
  | P_func_return_clause
  | P_func_body
  | P_func_param
  | P_func_param_name
  | P_func_param_or_end
  | P_func_return_type
  | P_func_params_next_or_end
  | P_start
  | P_statement

text \<open>
  The data members of \<open>class Parser\<close>, with the prefix \<open>ps_\<close>. The iterator is the
  position in \<open>tokens_\<close>; the shared pointers are null until the run assigns them;
  \<open>ps_graph\<close> is the memory they point into.
\<close>

record Parser =
  ps_tokens :: "Token list"
  ps_iterator :: nat
  ps_state :: ParserState
  ps_package :: "addr option"
  ps_function :: "addr option"
  ps_object :: "addr option"
  ps_cls :: "addr option"
  ps_return_statement :: "addr option"
  ps_object_expression :: "addr option"
  ps_operator_expression :: "addr option"
  ps_graph :: Graph

definition new_Parser :: "Token list \<Rightarrow> Graph \<Rightarrow> Parser" where
  "new_Parser tokens g =
     \<lparr> ps_tokens = tokens, ps_iterator = 0, ps_state = P_start,
       ps_package = None, ps_function = None, ps_object = None, ps_cls = None,
       ps_return_statement = None, ps_object_expression = None,
       ps_operator_expression = None, ps_graph = g \<rparr>"

text \<open>
  \<open>current_token\<close> dereferences the iterator: \<open>None\<close> when it stands at the end of
  the vector, where the dereference is undefined.
\<close>

definition current_token :: "Parser \<Rightarrow> Token option" where
  "current_token P =
     (if ps_iterator P < length (ps_tokens P) then Some (ps_tokens P ! ps_iterator P)
      else None)"

text \<open>
  What one iteration of the loop of \<open>Parser::run\<close> does: go on (\<open>Continue\<close>), return
  the package (\<open>Return\<close>, with the memory it lives in), print the current token and
  exit through \<open>fail\<close> (\<open>Fail\<close>), or run into undefined behaviour (\<open>Crash\<close>).
\<close>

datatype parser_step_result =
    Continue Parser
  | Return addr Graph
  | Fail Token
  | Crash fault

definition advance_token :: "Parser \<Rightarrow> parser_step_result" where
  "advance_token P =
     (case current_token P of
        None \<Rightarrow> Crash Past_the_end
      | Some t \<Rightarrow>
          if type t = T_end then Continue P
          else Continue (P\<lparr>ps_iterator := ps_iterator P + 1\<rparr>))"

text \<open>
  \<open>fail\<close> writes \<open>error: unexpected token\<close> and the current token (its type, lexeme,
  line and column) to the error stream and exits the process with \<open>EXIT_FAILURE\<close>.
\<close>

definition fail :: "Parser \<Rightarrow> parser_step_result" where
  "fail P = (case current_token P of None \<Rightarrow> Crash Past_the_end | Some t \<Rightarrow> Fail t)"

text \<open>The dereference of a shared pointer that may be null.\<close>

definition deref :: "addr option \<Rightarrow> (addr \<Rightarrow> parser_step_result) \<Rightarrow> parser_step_result" where
  "deref p k = (case p of None \<Rightarrow> Crash Null_dereference | Some a \<Rightarrow> k a)"

text \<open>The cases of the \<open>switch (state_)\<close>, one definition for each; \<open>t\<close> is the current token.\<close>

definition case_start :: "Parser \<Rightarrow> Token \<Rightarrow> parser_step_result" where
  "case_start P t =
     (if type t = T_end then deref (ps_package P) (\<lambda>p. Return p (ps_graph P))
      else if type t = T_func_keyword then
        (case make_shared_Function (ps_graph P) of
           (f, g1) \<Rightarrow>
             deref (ps_package P) (\<lambda>p.
               advance_token (P\<lparr> ps_function := Some f,
                                 ps_graph := Package_add_Function p f (set_return_type f R_none g1),
                                 ps_state := P_func_name \<rparr>)))
      else fail P)"

definition case_func_name :: "Parser \<Rightarrow> Token \<Rightarrow> parser_step_result" where
  "case_func_name P t =
     (if type t = T_identifier then
        deref (ps_function P) (\<lambda>f.
          advance_token (P\<lparr> ps_graph := Function_set_name f (lexeme t) (ps_graph P),
                            ps_state := P_func_params_start \<rparr>))
      else fail P)"

definition case_func_params_start :: "Parser \<Rightarrow> Token \<Rightarrow> parser_step_result" where
  "case_func_params_start P t =
     (if type t = T_left_paren then advance_token (P\<lparr>ps_state := P_func_param_or_end\<rparr>)
      else fail P)"

definition case_func_param_or_end :: "Parser \<Rightarrow> Token \<Rightarrow> parser_step_result" where
  "case_func_param_or_end P t =
     (if type t = T_right_paren then advance_token (P\<lparr>ps_state := P_func_return_clause\<rparr>)
      else Continue (P\<lparr>ps_state := P_func_param\<rparr>))"

definition case_func_param :: "Parser \<Rightarrow> Token \<Rightarrow> parser_step_result" where
  "case_func_param P t =
     (if type t = T_identifier then
        deref (ps_package P) (\<lambda>p.
          (case get_class (ps_graph P) p (lexeme t) of
             None \<Rightarrow> fail (P\<lparr>ps_cls := None\<rparr>)
           | Some c \<Rightarrow>
               (case make_shared_Object (ps_graph P) of
                  (ob, g1) \<Rightarrow>
                    deref (ps_function P) (\<lambda>f.
                      advance_token
                        (P\<lparr> ps_cls := Some c, ps_object := Some ob,
                            ps_graph := Function_add_Object f ob (set_cls ob (Some c) g1),
                            ps_state := P_func_param_name \<rparr>)))))
      else fail P)"

definition case_func_param_name :: "Parser \<Rightarrow> Token \<Rightarrow> parser_step_result" where
  "case_func_param_name P t =
     (if type t = T_identifier then
        deref (ps_object P) (\<lambda>ob.
          advance_token (P\<lparr> ps_graph := Object_set_name ob (lexeme t) (ps_graph P),
                            ps_state := P_func_params_next_or_end \<rparr>))
      else fail P)"

definition case_func_params_next_or_end :: "Parser \<Rightarrow> Token \<Rightarrow> parser_step_result" where
  "case_func_params_next_or_end P t =
     (if type t = T_comma then advance_token (P\<lparr>ps_state := P_func_param\<rparr>)
      else if type t = T_right_paren then advance_token (P\<lparr>ps_state := P_func_return_clause\<rparr>)
      else fail P)"

definition case_func_return_clause :: "Parser \<Rightarrow> Token \<Rightarrow> parser_step_result" where
  "case_func_return_clause P t =
     (if type t = T_arrow then advance_token (P\<lparr>ps_state := P_func_return_type\<rparr>)
      else Continue (P\<lparr>ps_state := P_func_body\<rparr>))"

definition case_func_return_type :: "Parser \<Rightarrow> Token \<Rightarrow> parser_step_result" where
  "case_func_return_type P t =
     (if type t = T_identifier then
        deref (ps_package P) (\<lambda>p.
          (case get_class (ps_graph P) p (lexeme t) of
             None \<Rightarrow> fail (P\<lparr>ps_cls := None\<rparr>)
           | Some c \<Rightarrow>
               deref (ps_function P) (\<lambda>f.
                 advance_token
                   (P\<lparr> ps_cls := Some c,
                       ps_graph := set_return_class f (Some c)
                                     (set_return_type f R_value (ps_graph P)),
                       ps_state := P_func_body \<rparr>))))
      else fail P)"

definition case_func_body :: "Parser \<Rightarrow> Token \<Rightarrow> parser_step_result" where
  "case_func_body P t =
     (if type t = T_left_curly then advance_token (P\<lparr>ps_state := P_statement\<rparr>)
      else fail P)"

definition case_statement :: "Parser \<Rightarrow> Token \<Rightarrow> parser_step_result" where
  "case_statement P t =
     (if type t = T_right_curly then advance_token (P\<lparr>ps_state := P_start\<rparr>)
      else if type t = T_return_keyword then
        (case make_shared_Statement C_ReturnStatement (ps_graph P) of
           (r, g1) \<Rightarrow>
             deref (ps_function P) (\<lambda>f.
               advance_token (P\<lparr> ps_return_statement := Some r,
                                 ps_graph := Function_add_Statement f r g1,
                                 ps_state := P_expression_value \<rparr>)))
      else fail P)"

definition case_expression_value :: "Parser \<Rightarrow> Token \<Rightarrow> parser_step_result" where
  "case_expression_value P t =
     (if type t = T_identifier then
        deref (ps_function P) (\<lambda>f.
          (case get_object (ps_graph P) f (lexeme t) of
             None \<Rightarrow> fail (P\<lparr>ps_object := None\<rparr>)
           | Some ob \<Rightarrow>
               (case make_shared_Statement C_ObjectExpression (ps_graph P) of
                  (e, g1) \<Rightarrow>
                    advance_token
                      (P\<lparr> ps_object := Some ob, ps_object_expression := Some e,
                          ps_graph := set_object e (Some ob) g1,
                          ps_state := P_expression_operator \<rparr>))))
      else fail P)"

definition case_expression_operator :: "Parser \<Rightarrow> Token \<Rightarrow> parser_step_result" where
  "case_expression_operator P t =
     (if type t = T_semicolon then
        (case ps_operator_expression P of
           Some oe \<Rightarrow>
             deref (ps_object_expression P) (\<lambda>e.
               deref (ps_return_statement P) (\<lambda>r.
                 advance_token
                   (P\<lparr> ps_graph := set_expression r (Some oe)
                                     (OperatorExpression_add oe e (ps_graph P)),
                       ps_operator_expression := None,
                       ps_object_expression := None,
                       ps_state := P_statement \<rparr>)))
         | None \<Rightarrow>
             deref (ps_return_statement P) (\<lambda>r.
               advance_token
                 (P\<lparr> ps_graph := set_expression r (ps_object_expression P) (ps_graph P),
                     ps_object_expression := None,
                     ps_state := P_statement \<rparr>)))
      else if type t = T_plus then
        (case make_shared_Statement C_OperatorExpression (ps_graph P) of
           (operator_expression, g1) \<Rightarrow>
             deref (ps_object_expression P) (\<lambda>e.
               advance_token
                 (P\<lparr> ps_graph :=
                       (case ps_operator_expression P of
                          Some oe \<Rightarrow>
                            OperatorExpression_add operator_expression oe
                              (OperatorExpression_add oe e
                                 (set_operator_type operator_expression O_plus g1))
                        | None \<Rightarrow>
                            OperatorExpression_add operator_expression e
                              (set_operator_type operator_expression O_plus g1)),
                     ps_operator_expression := Some operator_expression,
                     ps_object_expression := None,
                     ps_state := P_expression_value \<rparr>)))
      else fail P)"

text \<open>One iteration of the loop: every case begins by reading the current token.\<close>

definition parser_step :: "Parser \<Rightarrow> parser_step_result" where
  "parser_step P =
     (case current_token P of
        None \<Rightarrow> Crash Past_the_end
      | Some t \<Rightarrow>
          (case ps_state P of
             P_start \<Rightarrow> case_start P t
           | P_func_name \<Rightarrow> case_func_name P t
           | P_func_params_start \<Rightarrow> case_func_params_start P t
           | P_func_param_or_end \<Rightarrow> case_func_param_or_end P t
           | P_func_param \<Rightarrow> case_func_param P t
           | P_func_param_name \<Rightarrow> case_func_param_name P t
           | P_func_params_next_or_end \<Rightarrow> case_func_params_next_or_end P t
           | P_func_return_clause \<Rightarrow> case_func_return_clause P t
           | P_func_return_type \<Rightarrow> case_func_return_type P t
           | P_func_body \<Rightarrow> case_func_body P t
           | P_statement \<Rightarrow> case_statement P t
           | P_expression_value \<Rightarrow> case_expression_value P t
           | P_expression_operator \<Rightarrow> case_expression_operator P t))"

text \<open>
  The statements of \<open>Parser::run\<close> before the loop: the package \<open>default\<close> and its
  class \<open>int\<close>.
\<close>

definition run_prologue :: "Parser \<Rightarrow> Parser" where
  "run_prologue P =
     (case make_shared_Package (ps_graph P) of
        (p, g1) \<Rightarrow>
          (case make_shared_Class (Package_set_name p ''default'' g1) of
             (int_class, g2) \<Rightarrow>
               P\<lparr> ps_package := Some p,
                  ps_graph := Package_add_Class p int_class
                                (Class_set_name int_class ''int'' g2) \<rparr>))"

text \<open>
  How a run ends: with the package, with the exit through \<open>fail\<close>, or in undefined
  behaviour. \<open>parser_loop\<close> is the loop bounded by a number of iterations (\<open>None\<close>: it
  has not ended within them), \<open>Parser_run\<close> the whole of \<open>Parser::run\<close>.
\<close>

datatype parser_outcome =
    Package_returned addr Graph
  | Exit_failure Token
  | Undefined fault

fun parser_loop :: "nat \<Rightarrow> Parser \<Rightarrow> parser_outcome option" where
  "parser_loop 0 P = None"
| "parser_loop (Suc n) P =
     (case parser_step P of
        Continue P' \<Rightarrow> parser_loop n P'
      | Return p g \<Rightarrow> Some (Package_returned p g)
      | Fail t \<Rightarrow> Some (Exit_failure t)
      | Crash e \<Rightarrow> Some (Undefined e))"

definition Parser_run :: "nat \<Rightarrow> Parser \<Rightarrow> parser_outcome option" where
  "Parser_run n P = parser_loop n (run_prologue P)"

text \<open>The memory before the first allocation; what it holds is never read.\<close>

definition empty_Graph :: Graph where
  "empty_Graph =
     \<lparr> mem_Package = (\<lambda>_. \<lparr> name = [], parent = None, class_entities = [],
                             function_entities = [] \<rparr>),
       mem_Class = (\<lambda>_. new_Entity),
       mem_Function = (\<lambda>_. \<lparr> name = [], parent = None, return_type = R_none,
                              return_class = None, object_entities = [],
                              statement_entities = [] \<rparr>),
       mem_Object = (\<lambda>_. \<lparr> name = [], parent = None, cls = None \<rparr>),
       mem_Statement = (\<lambda>_. \<lparr> name = [], parent = None, dynamic_type = C_Statement,
                               expression = None, object = None, operator_type = O_plus,
                               expression_entities = [] \<rparr>),
       allocated = 0 \<rparr>"

section \<open>The translator (translator.cpp)\<close>

definition translate_OperatorType :: "OperatorType \<Rightarrow> string" where
  "translate_OperatorType ot = (case ot of O_plus \<Rightarrow> ''+'')"

text \<open>
  The loop over the operands of an \<open>OperatorExpression\<close>: the translations in order,
  with the operator after each one but the last. The operands arrive translated;
  the first one that has not returned, or has ended in a fault, ends the loop.
\<close>

fun join_operands :: "string \<Rightarrow> (fault + string) option list \<Rightarrow> (fault + string) option" where
  "join_operands sep [] = Some (Inr [])"
| "join_operands sep (r # rs) =
     (case r of
        None \<Rightarrow> None
      | Some (Inl e) \<Rightarrow> Some (Inl e)
      | Some (Inr code) \<Rightarrow>
          (case join_operands sep rs of
             None \<Rightarrow> None
           | Some (Inl e) \<Rightarrow> Some (Inl e)
           | Some (Inr rest) \<Rightarrow> Some (Inr (code @ (if rs = [] then [] else sep) @ rest))))"

text \<open>
  \<open>translate(std::shared_ptr<Expression>)\<close>. It calls itself on the operands, which
  ends only if the graph below the expression has no cycle: the first argument bounds
  the depth of the calls, and \<open>None\<close> says that the bound was reached. Both casts of a
  null pointer give null, so the translation of a null pointer is empty.
\<close>

fun translate_Expression :: "nat \<Rightarrow> Graph \<Rightarrow> addr option \<Rightarrow> (fault + string) option" where
  "translate_Expression 0 g ex = None"
| "translate_Expression (Suc n) g None = Some (Inr [])"
| "translate_Expression (Suc n) g (Some a) =
     (if dynamic_type (mem_Statement g a) = C_OperatorExpression then
        (case join_operands (translate_OperatorType (operator_type (mem_Statement g a)))
                (map (\<lambda>e. translate_Expression n g (Some e))
                   (expression_entities (mem_Statement g a))) of
           None \<Rightarrow> None
         | Some (Inl e) \<Rightarrow> Some (Inl e)
         | Some (Inr code) \<Rightarrow> Some (Inr (''('' @ code @ '')'')))
      else if dynamic_type (mem_Statement g a) = C_ObjectExpression then
        (case object (mem_Statement g a) of
           None \<Rightarrow> Some (Inl Null_dereference)
         | Some ob \<Rightarrow> Some (Inr (name (mem_Object g ob))))
      else Some (Inr []))"

text \<open>The loop over the parameters of a function.\<close>

fun translate_params :: "Graph \<Rightarrow> addr list \<Rightarrow> fault + string" where
  "translate_params g [] = Inr []"
| "translate_params g (ob # obs) =
     (case cls (mem_Object g ob) of
        None \<Rightarrow> Inl Null_dereference
      | Some c \<Rightarrow>
          (case translate_params g obs of
             Inl e \<Rightarrow> Inl e
           | Inr rest \<Rightarrow>
               Inr (name (mem_Class g c) @ '' '' @ name (mem_Object g ob)
                    @ (if obs = [] then [] else '', '') @ rest)))"

text \<open>The loop over the statements of a function.\<close>

fun translate_statements :: "nat \<Rightarrow> Graph \<Rightarrow> addr list \<Rightarrow> (fault + string) option" where
  "translate_statements n g [] = Some (Inr [])"
| "translate_statements n g (st # sts) =
     (case (if dynamic_type (mem_Statement g st) = C_ReturnStatement then
              (case translate_Expression n g (expression (mem_Statement g st)) of
                 None \<Rightarrow> None
               | Some (Inl e) \<Rightarrow> Some (Inl e)
               | Some (Inr code) \<Rightarrow> Some (Inr (''return '' @ code)))
            else Some (Inr [])) of
        None \<Rightarrow> None
      | Some (Inl e) \<Rightarrow> Some (Inl e)
      | Some (Inr code) \<Rightarrow>
          (case translate_statements n g sts of
             None \<Rightarrow> None
           | Some (Inl e) \<Rightarrow> Some (Inl e)
           | Some (Inr rest) \<Rightarrow> Some (Inr (''  '' @ code @ [CHR '';'', CHR 0x0A] @ rest))))"

text \<open>\<open>translate(std::shared_ptr<Function>)\<close>.\<close>

definition translate_Function :: "nat \<Rightarrow> Graph \<Rightarrow> addr \<Rightarrow> (fault + string) option" where
  "translate_Function n g f =
     (case (if return_type (mem_Function g f) = R_none then Inr ''void ''
            else (case return_class (mem_Function g f) of
                    None \<Rightarrow> Inl Null_dereference
                  | Some c \<Rightarrow> Inr (name (mem_Class g c) @ '' ''))) of
        Inl e \<Rightarrow> Some (Inl e)
      | Inr head \<Rightarrow>
          (case translate_params g (object_entities (mem_Function g f)) of
             Inl e \<Rightarrow> Some (Inl e)
           | Inr params \<Rightarrow>
               (case translate_statements n g (statement_entities (mem_Function g f)) of
                  None \<Rightarrow> None
                | Some (Inl e) \<Rightarrow> Some (Inl e)
                | Some (Inr body) \<Rightarrow>
                    Some (Inr (head @ name (mem_Function g f) @ ''('' @ params
                               @ [CHR '')'', CHR '' '', CHR ''{'', CHR 0x0A] @ body
                               @ [CHR ''}'', CHR 0x0A])))))"

text \<open>\<open>translate(std::shared_ptr<Package>)\<close>: the functions of the package in order.\<close>

fun translate_Functions :: "nat \<Rightarrow> Graph \<Rightarrow> addr list \<Rightarrow> (fault + string) option" where
  "translate_Functions n g [] = Some (Inr [])"
| "translate_Functions n g (f # fs) =
     (case translate_Function n g f of
        None \<Rightarrow> None
      | Some (Inl e) \<Rightarrow> Some (Inl e)
      | Some (Inr code) \<Rightarrow>
          (case translate_Functions n g fs of
             None \<Rightarrow> None
           | Some (Inl e) \<Rightarrow> Some (Inl e)
           | Some (Inr rest) \<Rightarrow> Some (Inr (code @ rest))))"

definition translate_Package :: "nat \<Rightarrow> Graph \<Rightarrow> addr \<Rightarrow> (fault + string) option" where
  "translate_Package n g p = translate_Functions n g (function_entities (mem_Package g p))"

section \<open>Notions used to state the properties\<close>

text \<open>A token written in one line.\<close>

definition tok :: "TokenType \<Rightarrow> string \<Rightarrow> int \<Rightarrow> int \<Rightarrow> Token" where
  "tok t lx l c = \<lparr> type = t, lexeme = lx, line_number = l, column_number = c \<rparr>"

text \<open>
  The column after a tab as the specification words it, for tab width \<open>W\<close> and
  current column \<open>C\<close>: \<open>((C + W) / W) * W\<close> with integer division.
\<close>

definition spec_tab_column :: "int \<Rightarrow> int \<Rightarrow> int" where
  "spec_tab_column C W = (C + W) sdiv W * W"

text \<open>
  The first \<open>n\<close> iterations of the loop of \<open>Parser::run\<close>: the state after them, or
  the way the loop ended before.
\<close>

fun parser_steps :: "nat \<Rightarrow> Parser \<Rightarrow> parser_step_result" where
  "parser_steps 0 P = Continue P"
| "parser_steps (Suc n) P =
     (case parser_step P of
        Continue P' \<Rightarrow> parser_steps n P'
      | Return p g \<Rightarrow> Return p g
      | Fail t \<Rightarrow> Fail t
      | Crash e \<Rightarrow> Crash e)"

text \<open>The source text of the round-trip scenario, with its terminator, and its tokens.\<close>

definition add_source :: string where
  "add_source = ''func add(int a, int b) -> int { return a+b; }'' @ [CHR 0x00]"

definition add_tokens :: "Token list" where
  "add_tokens =
     [tok T_func_keyword ''func'' 1 1, tok T_identifier ''add'' 1 6,
      tok T_left_paren ''('' 1 9, tok T_identifier ''int'' 1 10,
      tok T_identifier ''a'' 1 14, tok T_comma '','' 1 15,
      tok T_identifier ''int'' 1 17, tok T_identifier ''b'' 1 21,
      tok T_right_paren '')'' 1 22, tok T_arrow ''->'' 1 24,
      tok T_identifier ''int'' 1 27, tok T_left_curly ''{'' 1 31,
      tok T_return_keyword ''return'' 1 33, tok T_identifier ''a'' 1 40,
      tok T_plus ''+'' 1 41, tok T_identifier ''b'' 1 42,
      tok T_semicolon '';'' 1 43, tok T_right_curly ''}'' 1 45,
      tok T_end [] 1 46]"

text \<open>
  The tokens of \<open>func f(int a, int b, int c) -> int { return a+b+c; }\<close>, of
  \<open>func f(int a) { return a; }\<close>, of \<open>func f(foo a) { }\<close> and of
  \<open>func f(int a) { return b; }\<close>, as the lexer returns them.
\<close>

definition abc_tokens :: "Token list" where
  "abc_tokens =
     [tok T_func_keyword ''func'' 1 1, tok T_identifier ''f'' 1 6,
      tok T_left_paren ''('' 1 7, tok T_identifier ''int'' 1 8,
      tok T_identifier ''a'' 1 12, tok T_comma '','' 1 13,
      tok T_identifier ''int'' 1 15, tok T_identifier ''b'' 1 19,
      tok T_comma '','' 1 20, tok T_identifier ''int'' 1 22,
      tok T_identifier ''c'' 1 26, tok T_right_paren '')'' 1 27,
      tok T_arrow ''->'' 1 29, tok T_identifier ''int'' 1 32,
      tok T_left_curly ''{'' 1 36, tok T_return_keyword ''return'' 1 38,
      tok T_identifier ''a'' 1 45, tok T_plus ''+'' 1 46,
      tok T_identifier ''b'' 1 47, tok T_plus ''+'' 1 48,
      tok T_identifier ''c'' 1 49, tok T_semicolon '';'' 1 50,
      tok T_right_curly ''}'' 1 52, tok T_end [] 1 53]"

definition void_return_tokens :: "Token list" where
  "void_return_tokens =
     [tok T_func_keyword ''func'' 1 1, tok T_identifier ''f'' 1 6,
      tok T_left_paren ''('' 1 7, tok T_identifier ''int'' 1 8,
      tok T_identifier ''a'' 1 12, tok T_right_paren '')'' 1 13,
      tok T_left_curly ''{'' 1 15, tok T_return_keyword ''return'' 1 17,
      tok T_identifier ''a'' 1 24, tok T_semicolon '';'' 1 25,
      tok T_right_curly ''}'' 1 27, tok T_end [] 1 28]"

definition unknown_class_tokens :: "Token list" where
  "unknown_class_tokens =
     [tok T_func_keyword ''func'' 1 1, tok T_identifier ''f'' 1 6,
      tok T_left_paren ''('' 1 7, tok T_identifier ''foo'' 1 8,
      tok T_identifier ''a'' 1 12, tok T_right_paren '')'' 1 13,
      tok T_left_curly ''{'' 1 15, tok T_right_curly ''}'' 1 17,
      tok T_end [] 1 18]"

definition unknown_object_tokens :: "Token list" where
  "unknown_object_tokens =
     [tok T_func_keyword ''func'' 1 1, tok T_identifier ''f'' 1 6,
      tok T_left_paren ''('' 1 7, tok T_identifier ''int'' 1 8,
      tok T_identifier ''a'' 1 12, tok T_right_paren '')'' 1 13,
      tok T_left_curly ''{'' 1 15, tok T_return_keyword ''return'' 1 17,
      tok T_identifier ''b'' 1 24, tok T_semicolon '';'' 1 25,
      tok T_right_curly ''}'' 1 27, tok T_end [] 1 28]"

text \<open>
  The parser stands inside the token list \<open>tokens\<close>: the list is the one it was
  given and the iterator denotes one of its elements. A step is safe if it keeps
  the parser inside the list and does not dereference the end of the list.
\<close>

definition within :: "Token list \<Rightarrow> Parser \<Rightarrow> bool" where
  "within tokens P = (ps_tokens P = tokens \<and> ps_iterator P < length tokens)"

definition safe_result :: "Token list \<Rightarrow> parser_step_result \<Rightarrow> bool" where
  "safe_result tokens r =
     (case r of
        Continue P' \<Rightarrow> within tokens P'
      | Return p g \<Rightarrow> True
      | Fail t \<Rightarrow> True
      | Crash e \<Rightarrow> e \<noteq> Past_the_end)"

text \<open>
  The return mode of the function at \<open>f\<close> agrees with its return class: no class for
  \<open>none\<close>, a class of the package \<open>p\<close> for \<open>value\<close>. \<open>functions_ok\<close> says so of
  every function of the package, each of them allocated.
\<close>

definition return_ok :: "Graph \<Rightarrow> addr \<Rightarrow> addr \<Rightarrow> bool" where
  "return_ok g p f =
     ((return_type (mem_Function g f) = R_none \<longrightarrow> return_class (mem_Function g f) = None)
      \<and> (return_type (mem_Function g f) = R_value \<longrightarrow>
           (\<exists>c. return_class (mem_Function g f) = Some c
                \<and> c \<in> set (class_entities (mem_Package g p)))))"

definition functions_ok :: "addr \<Rightarrow> Graph \<Rightarrow> bool" where
  "functions_ok p g =
     (\<forall>f\<in>set (function_entities (mem_Package g p)). f < allocated g \<and> return_ok g p f)"

definition parser_ok :: "addr \<Rightarrow> Parser \<Rightarrow> bool" where
  "parser_ok p P = (ps_package P = Some p \<and> functions_ok p (ps_graph P))"

definition ok_result :: "addr \<Rightarrow> parser_step_result \<Rightarrow> bool" where
  "ok_result p r =
     (case r of
        Continue P' \<Rightarrow> parser_ok p P'
      | Return p' g \<Rightarrow> p' = p \<and> functions_ok p g
      | Fail t \<Rightarrow> True
      | Crash e \<Rightarrow> True)"

text \<open>
  Between two return statements no operator expression is under construction: the
  pointer \<open>operator_expression_\<close> is null outside the two expression states.
\<close>

definition no_pending_operator :: "Parser \<Rightarrow> bool" where
  "no_pending_operator P =
     (ps_state P = P_expression_value \<or> ps_state P = P_expression_operator
      \<or> ps_operator_expression P = None)"

definition no_pending_result :: "parser_step_result \<Rightarrow> bool" where
  "no_pending_result r =
     (case r of
        Continue P' \<Rightarrow> no_pending_operator P'
      | Return p g \<Rightarrow> True
      | Fail t \<Rightarrow> True
      | Crash e \<Rightarrow> True)"

text \<open>
  Line breaks. \<open>break_chars\<close> is the line break that begins with CR: CR alone, or CR
  and LF. \<open>with_breaks\<close> writes every LF of a text as that line break.
\<close>

definition break_chars :: "bool \<Rightarrow> string" where
  "break_chars crlf = (if crlf then [CHR 0x0D, CHR 0x0A] else [CHR 0x0D])"

definition with_breaks :: "bool \<Rightarrow> string \<Rightarrow> string" where
  "with_breaks crlf t = concat (map (\<lambda>c. if c = CHR 0x0A then break_chars crlf else [c]) t)"

text \<open>
  A lexer on a text with LF line breaks, moved to the same place of the text with
  the other line breaks: the source is rewritten, and the two indices count the
  rewritten characters before them.
\<close>

definition relocate :: "bool \<Rightarrow> Lexer \<Rightarrow> Lexer" where
  "relocate crlf L =
     L\<lparr> lx_source := with_breaks crlf (lx_source L),
        lx_index := length (with_breaks crlf (take (lx_index L) (lx_source L))),
        lx_start_index := length (with_breaks crlf (take (lx_start_index L) (lx_source L))) \<rparr>"

fun relocate_result :: "bool \<Rightarrow> lexer_step_result \<Rightarrow> lexer_step_result" where
  "relocate_result crlf (Next L) = Next (relocate crlf L)"
| "relocate_result crlf (Done ts) = Done ts"
| "relocate_result crlf (Fault e) = Fault e"

text \<open>
  The first \<open>n\<close> iterations of the loop of \<open>Lexer::run\<close>: the state after them, or the
  way the loop ended before.
\<close>

fun lexer_steps :: "nat \<Rightarrow> Lexer \<Rightarrow> lexer_step_result" where
  "lexer_steps 0 L = Next L"
| "lexer_steps (Suc n) L =
     (case lexer_step L of
        Next L' \<Rightarrow> lexer_steps n L'
      | Done ts \<Rightarrow> Done ts
      | Fault e \<Rightarrow> Fault e)"

text \<open>
  A logical source text is a list of lines. \<open>source_text br ls\<close> is the buffer that
  holds the lines \<open>ls\<close> with the line break \<open>br\<close> between them and the terminator at
  its end.
\<close>

fun join_lines :: "string \<Rightarrow> string list \<Rightarrow> string" where
  "join_lines br [] = []"
| "join_lines br [l] = l"
| "join_lines br (l # ls) = l @ br @ join_lines br ls"

definition source_text :: "string \<Rightarrow> string list \<Rightarrow> string" where
  "source_text br ls = join_lines br ls @ [CHR 0x00]"

text \<open>
  A text with LF line breaks only that does not end in a line break; a lexer placed
  in it; the states in which a lexeme is being collected; and what every state of a
  run on such a text satisfies: no CR has been seen, and the lexeme collected so far
  contains no line break.
\<close>

definition good_text :: "string \<Rightarrow> bool" where
  "good_text t = (t \<noteq> [] \<and> last t \<noteq> CHR 0x0A \<and> CHR 0x0D \<notin> set t)"

definition tokenish :: "LexerState \<Rightarrow> bool" where
  "tokenish s =
     (s = L_identifier_or_keyword \<or> s = L_divide_or_comment \<or> s = L_minus_or_arrow)"

definition placed :: "string \<Rightarrow> Lexer \<Rightarrow> bool" where
  "placed t L =
     (lx_source L = t \<and> lx_index L < length t \<and> lx_start_index L \<le> lx_index L)"

definition tracked :: "string \<Rightarrow> Lexer \<Rightarrow> bool" where
  "tracked t L =
     (placed t L \<and> lx_state L \<noteq> L_cr_or_crlf \<and> lx_state L \<noteq> L_multi_line_comment_cr_or_crlf
      \<and> (tokenish (lx_state L) \<longrightarrow> CHR 0x0A \<notin> set (get_lexeme L)))"

section \<open>Evaluation\<close>

lemmas lexer_defs =
  new_Lexer_def lexer_step_def step_start_def single_char_token_def set_state_def
  start_lexeme_def current_char_def advance_char_def advance_line_def advance_tab_def
  size_minus_1_def get_lexeme_def add_token_def get_keyword_token_type_def
  isalpha_def isalnum_def

lemmas graph_defs =
  make_shared_Package_def make_shared_Class_def make_shared_Function_def
  make_shared_Object_def make_shared_Statement_def new_Entity_def
  Package_set_name_def Class_set_name_def Function_set_name_def Object_set_name_def
  set_return_type_def set_return_class_def set_cls_def set_expression_def set_object_def
  set_operator_type_def get_class_def get_object_def
  Package_add_Class_def Package_add_Function_def Function_add_Object_def
  Function_add_Statement_def OperatorExpression_add_def EntityContainer_add_def

lemmas case_defs =
  case_start_def case_func_name_def case_func_params_start_def case_func_param_or_end_def
  case_func_param_def case_func_param_name_def case_func_params_next_or_end_def
  case_func_return_clause_def case_func_return_type_def case_func_body_def
  case_statement_def case_expression_value_def case_expression_operator_def

lemmas parser_defs =
  Parser_run_def run_prologue_def new_Parser_def empty_Graph_def
  parser_step_def current_token_def advance_token_def fail_def deref_def
  case_defs graph_defs

lemmas translator_defs =
  translate_Package_def translate_Function_def translate_OperatorType_def

section \<open>The lexer on characters it has no case for\<close>

lemma step_ampersand_first:
  "lexer_step (new_Lexer [CHR ''&'', CHR 0x00]) = Next (start_lexeme (new_Lexer [CHR ''&'', CHR 0x00]))"
  by (simp add: lexer_defs Let_def)

lemma step_ampersand_again:
  "lexer_step (start_lexeme (new_Lexer [CHR ''&'', CHR 0x00])) =
     Next (start_lexeme (new_Lexer [CHR ''&'', CHR 0x00]))"
  by (simp add: lexer_defs Let_def)

lemma run_ampersand_again:
  "run_fuel n (start_lexeme (new_Lexer [CHR ''&'', CHR 0x00])) = None"
  by (induction n) (simp_all add: step_ampersand_again)

text \<open>
  Claim C1 says that \<open>Lexer::run\<close> returns on every null-terminated source and that a
  character without a case in the start state, such as a raw \<open>&\<close>, is skipped. On the
  source \<open>&\<close> followed by the terminator the loop never returns: the start state has
  no \<open>default\<close> label, so the iteration leaves the index and the state as they are,
  and no number of iterations reaches the \<open>return\<close>.
\<close>

theorem lexer_never_returns_on_ampersand:
  "\<forall>n. run_fuel n (new_Lexer [CHR ''&'', CHR 0x00]) = None"
proof
  fix n
  show "run_fuel n (new_Lexer [CHR ''&'', CHR 0x00]) = None"
    by (cases n) (simp_all add: step_ampersand_first run_ampersand_again)
qed

text \<open>
  The same happens in a single-line comment that the terminator ends: at the last
  index \<open>advance_char\<close> does nothing, and the comment state has no case for the
  terminator.
\<close>

lemma run_fuel_fixed_point:
  assumes "lexer_step L = Next L"
  shows "run_fuel n L = None"
  by (induction n) (simp_all add: assms)

lemma step_comment_1:
  "lexer_step (new_Lexer [CHR ''/'', CHR ''/'', CHR 0x00]) =
     Next ((start_lexeme (new_Lexer [CHR ''/'', CHR ''/'', CHR 0x00]))
             \<lparr> lx_index := 1, lx_column_number := 2, lx_state := L_divide_or_comment \<rparr>)"
  by (simp add: lexer_defs Let_def)

lemma step_comment_2:
  "lexer_step ((start_lexeme (new_Lexer [CHR ''/'', CHR ''/'', CHR 0x00]))
             \<lparr> lx_index := 1, lx_column_number := 2, lx_state := L_divide_or_comment \<rparr>) =
     Next ((start_lexeme (new_Lexer [CHR ''/'', CHR ''/'', CHR 0x00]))
             \<lparr> lx_index := 2, lx_column_number := 3, lx_state := L_single_line_comment \<rparr>)"
  by (simp add: lexer_defs Let_def)

lemma step_comment_3:
  "lexer_step ((start_lexeme (new_Lexer [CHR ''/'', CHR ''/'', CHR 0x00]))
             \<lparr> lx_index := 2, lx_column_number := 3, lx_state := L_single_line_comment \<rparr>) =
     Next ((start_lexeme (new_Lexer [CHR ''/'', CHR ''/'', CHR 0x00]))
             \<lparr> lx_index := 2, lx_column_number := 3, lx_state := L_single_line_comment \<rparr>)"
  by (simp add: lexer_defs Let_def)

lemma lexer_never_returns_in_comment_at_end:
  "run_fuel n (new_Lexer [CHR ''/'', CHR ''/'', CHR 0x00]) = None"
proof (cases n)
  case 0
  then show ?thesis by simp
next
  case (Suc m)
  show ?thesis
  proof (cases m)
    case 0
    with \<open>n = Suc m\<close> show ?thesis
      by (simp only: run_fuel.simps step_comment_1 lexer_step_result.case)
  next
    case (Suc k)
    with \<open>n = Suc m\<close> show ?thesis
      by (simp only: run_fuel.simps step_comment_1 step_comment_2 lexer_step_result.case
          run_fuel_fixed_point [OF step_comment_3])
  qed
qed

section \<open>Tabs\<close>

text \<open>
  What the start state does with a tab: \<open>advance_char\<close> has added one to the column
  before \<open>advance_tab\<close> rounds it.
\<close>

lemma tab_in_start_state:
  assumes "lx_state L = L_start" and "current_char L = CHR 0x09"
    and "lx_index L \<noteq> size_minus_1 (lx_source L)" and "lx_columns_per_tab L \<noteq> 0"
  shows "\<exists>L'. lexer_step L = Next L' \<and>
           lx_column_number L' =
             (lx_column_number L + 1 + lx_columns_per_tab L) sdiv lx_columns_per_tab L
               * lx_columns_per_tab L"
proof -
  have "current_char (start_lexeme L) = current_char L"
    by (simp add: current_char_def start_lexeme_def)
  with assms(2) have c: "current_char (start_lexeme L) = CHR 0x09"
    by simp
  show ?thesis
    using assms(1,3,4)
    by (simp add: lexer_step_def step_start_def Let_def c isalpha_def)
       (simp add: start_lexeme_def advance_char_def advance_tab_def)
qed

text \<open>
  Claim C8 says that consuming a tab at column \<open>C\<close> with tab width \<open>W\<close> sets the column
  to \<open>((C + W) / W) * W\<close>. For the source of a tab, the letter \<open>x\<close> and the terminator,
  lexed with the default width 2, the tab stands at column 1 and the formula gives 2;
  the lexer puts the token \<open>x\<close> at column 4.
\<close>

theorem tab_at_column_1_width_2:
  "run_fuel 4 (new_Lexer [CHR 0x09, CHR ''x'', CHR 0x00]) =
     Some (Inr [tok T_identifier ''x'' 1 4, tok T_end [] 1 5])
   \<and> spec_tab_column 1 2 = 2"
  by (simp add: lexer_defs tok_def spec_tab_column_def Let_def eval_nat_numeral)

section \<open>Entity containers\<close>

lemma EntityContainer_get_None:
  "EntityContainer_get h es nm = None \<longleftrightarrow> (\<forall>e\<in>set es. name (h e) \<noteq> nm)"
  by (induction es) auto

lemma EntityContainer_get_Some:
  "EntityContainer_get h es nm = Some a \<longleftrightarrow>
     (\<exists>pre post. es = pre @ a # post \<and> name (h a) = nm \<and> (\<forall>e\<in>set pre. name (h e) \<noteq> nm))"
proof (induction es)
  case Nil
  show ?case by simp
next
  case (Cons x xs)
  show ?case
  proof (cases "name (h x) = nm")
    case True
    have "(\<exists>pre post. x # xs = pre @ a # post \<and> name (h a) = nm \<and> (\<forall>e\<in>set pre. name (h e) \<noteq> nm))
            \<longleftrightarrow> a = x"
    proof
      assume "\<exists>pre post. x # xs = pre @ a # post \<and> name (h a) = nm \<and> (\<forall>e\<in>set pre. name (h e) \<noteq> nm)"
      then obtain pre post where eq: "x # xs = pre @ a # post"
        and pre: "\<forall>e\<in>set pre. name (h e) \<noteq> nm" by blast
      show "a = x"
      proof (cases pre)
        case Nil
        with eq show ?thesis by simp
      next
        case (Cons y ys)
        with eq have "y = x" by simp
        with Cons pre True show ?thesis by simp
      qed
    next
      assume "a = x"
      with True have "x # xs = [] @ a # xs \<and> name (h a) = nm \<and> (\<forall>e\<in>set []. name (h e) \<noteq> nm)"
        by simp
      then show "\<exists>pre post. x # xs = pre @ a # post \<and> name (h a) = nm \<and> (\<forall>e\<in>set pre. name (h e) \<noteq> nm)"
        by blast
    qed
    with True show ?thesis by auto
  next
    case False
    have "(\<exists>pre post. x # xs = pre @ a # post \<and> name (h a) = nm \<and> (\<forall>e\<in>set pre. name (h e) \<noteq> nm))
            \<longleftrightarrow> (\<exists>pre post. xs = pre @ a # post \<and> name (h a) = nm \<and> (\<forall>e\<in>set pre. name (h e) \<noteq> nm))"
    proof
      assume "\<exists>pre post. x # xs = pre @ a # post \<and> name (h a) = nm \<and> (\<forall>e\<in>set pre. name (h e) \<noteq> nm)"
      then obtain pre post where eq: "x # xs = pre @ a # post" and nm: "name (h a) = nm"
        and pre: "\<forall>e\<in>set pre. name (h e) \<noteq> nm" by blast
      show "\<exists>pre post. xs = pre @ a # post \<and> name (h a) = nm \<and> (\<forall>e\<in>set pre. name (h e) \<noteq> nm)"
      proof (cases pre)
        case Nil
        with eq nm False show ?thesis by simp
      next
        case (Cons y ys)
        with eq pre nm have "xs = ys @ a # post \<and> name (h a) = nm \<and> (\<forall>e\<in>set ys. name (h e) \<noteq> nm)"
          by simp
        then show ?thesis by blast
      qed
    next
      assume "\<exists>pre post. xs = pre @ a # post \<and> name (h a) = nm \<and> (\<forall>e\<in>set pre. name (h e) \<noteq> nm)"
      then obtain pre post where "xs = pre @ a # post" and "name (h a) = nm"
        and "\<forall>e\<in>set pre. name (h e) \<noteq> nm" by blast
      with False have "x # xs = (x # pre) @ a # post \<and> name (h a) = nm
                        \<and> (\<forall>e\<in>set (x # pre). name (h e) \<noteq> nm)"
        by simp
      then show "\<exists>pre post. x # xs = pre @ a # post \<and> name (h a) = nm \<and> (\<forall>e\<in>set pre. name (h e) \<noteq> nm)"
        by blast
    qed
    with False Cons.IH show ?thesis by simp
  qed
qed

text \<open>
  Claim C9: the lookup \<open>get\<close> of a container (and with it \<open>get_class\<close>, \<open>get_function\<close>
  and \<open>get_object\<close>, which are \<open>get\<close> on the vector of the package or the function)
  returns the null pointer exactly when no contained entity has the name, and
  otherwise the first entity of the vector that has it: every entity before it has
  another name. The lookup is a function of the container and the name with a
  pointer as its only result: it raises nothing and changes nothing.
\<close>

theorem EntityContainer_get_first_match:
  "(EntityContainer_get h es nm = None \<longleftrightarrow> (\<forall>e\<in>set es. name (h e) \<noteq> nm)) \<and>
   (EntityContainer_get h es nm = Some a \<longleftrightarrow>
      (\<exists>pre post. es = pre @ a # post \<and> name (h a) = nm \<and>
         (\<forall>e\<in>set pre. name (h e) \<noteq> nm))) \<and>
   get_class g p nm = EntityContainer_get (mem_Class g) (class_entities (mem_Package g p)) nm \<and>
   get_function g p nm =
     EntityContainer_get (mem_Function g) (function_entities (mem_Package g p)) nm \<and>
   get_object g f nm = EntityContainer_get (mem_Object g) (object_entities (mem_Function g f)) nm"
  using EntityContainer_get_None [of h es nm] EntityContainer_get_Some [of h es nm a]
  by (simp only: get_class_def get_function_def get_object_def simp_thms)

theorem EntityContainer_get_first_match_witness:
  "EntityContainer_get (\<lambda>a. \<lparr> name = (if a = 1 then ''x'' else ''y''), parent = None \<rparr>)
     [1, 2, 3] ''y'' = Some 2
   \<and> (\<exists>pre post. [1, 2, 3] = pre @ (2::nat) # post \<and>
        (\<forall>e\<in>set pre. (if e = 1 then ''x'' else ''y'') \<noteq> ''y''))
   \<and> EntityContainer_get (\<lambda>a. \<lparr> name = (if a = 1 then ''x'' else ''y''), parent = None \<rparr>)
     [1, 2, 3] ''z'' = None"
  using EntityContainer_get_first_match
          [of "\<lambda>a. \<lparr> name = (if a = 1 then ''x'' else ''y''), parent = None \<rparr>"
              "[1, 2, 3]" "''y''" 2]
        EntityContainer_get_first_match
          [of "\<lambda>a. \<lparr> name = (if a = 1 then ''x'' else ''y''), parent = None \<rparr>"
              "[1, 2, 3]" "''z''" 2]
  by simp

text \<open>What \<open>add\<close> does: the entity is the last of the vector and points back to the container.\<close>

lemma EntityContainer_add_result:
  assumes "EntityContainer_add self e es h = (es', h')"
  shows "es' = es @ [e]" and "last es' = e" and "parent (h' e) = Some self"
    and "\<forall>x. x \<noteq> e \<longrightarrow> h' x = h x"
  using assms by (auto simp: EntityContainer_add_def)

text \<open>
  Claim C3 says that after \<open>remove(e)\<close> the back-reference of \<open>e\<close> is cleared and those
  of the other contained entities are unchanged. For a container at address 0 that
  holds the entities 1 and 2, \<open>remove\<close> of entity 1 takes it out of the vector, leaves
  its back-reference as it was and clears that of entity 2; \<open>remove\<close> of entity 2,
  the last one, dereferences the end of the vector.
\<close>

theorem remove_clears_the_wrong_back_reference:
  "(case EntityContainer_remove 1 [1, 2] (\<lambda>a. \<lparr> name = [], parent = Some 0 \<rparr>) of
      Inr (es, h) \<Rightarrow> es = [2] \<and> parent (h 1) = Some 0 \<and> parent (h 2) = None
    | Inl e \<Rightarrow> False)
   \<and> EntityContainer_remove 2 [1, 2] (\<lambda>a. \<lparr> name = [], parent = Some 0 \<rparr>) = Inl Past_the_end"
  by (simp add: EntityContainer_remove_def erase_def Let_def)

section \<open>The round trip of \<open>add\<close>\<close>

lemma lex_add_source: "run_fuel 62 (new_Lexer add_source) = Some (Inr add_tokens)"
  by (simp add: lexer_defs add_source_def add_tokens_def tok_def Let_def eval_nat_numeral)

lemma parse_add_tokens:
  "(case Parser_run 27 (new_Parser add_tokens empty_Graph) of
      Some (Package_returned p g) \<Rightarrow>
        mem_Package g p =
          \<lparr> name = ''default'', parent = None, class_entities = [1], function_entities = [2] \<rparr>
        \<and> mem_Class g 1 = \<lparr> name = ''int'', parent = Some p \<rparr>
        \<and> mem_Function g 2 =
            \<lparr> name = ''add'', parent = Some p, return_type = R_value, return_class = Some 1,
              object_entities = [3, 4], statement_entities = [5] \<rparr>
        \<and> mem_Object g 3 = \<lparr> name = ''a'', parent = Some 2, cls = Some 1 \<rparr>
        \<and> mem_Object g 4 = \<lparr> name = ''b'', parent = Some 2, cls = Some 1 \<rparr>
        \<and> mem_Statement g 5 =
            \<lparr> name = [], parent = Some 2, dynamic_type = C_ReturnStatement,
              expression = Some 7, object = None, operator_type = O_plus,
              expression_entities = [] \<rparr>
        \<and> mem_Statement g 7 =
            \<lparr> name = [], parent = None, dynamic_type = C_OperatorExpression,
              expression = None, object = None, operator_type = O_plus,
              expression_entities = [6, 8] \<rparr>
        \<and> mem_Statement g 6 =
            \<lparr> name = [], parent = Some 7, dynamic_type = C_ObjectExpression,
              expression = None, object = Some 3, operator_type = O_plus,
              expression_entities = [] \<rparr>
        \<and> mem_Statement g 8 =
            \<lparr> name = [], parent = Some 7, dynamic_type = C_ObjectExpression,
              expression = None, object = Some 4, operator_type = O_plus,
              expression_entities = [] \<rparr>
        \<and> translate_Package 2 g p =
            Some (Inr (''int add(int a, int b) {'' @ [CHR 0x0A]
                       @ ''  return (a+b);'' @ [CHR 0x0A] @ ''}'' @ [CHR 0x0A]))
    | _ \<Rightarrow> False)"
  by (simp add: parser_defs translator_defs add_tokens_def tok_def eval_nat_numeral)

text \<open>
  Claim C2, the round trip of \<open>func add(int a, int b) -> int { return a+b; }\<close>. The
  lexer returns the nineteen tokens of \<open>add_tokens\<close>. On them the parser returns a
  package \<open>default\<close> whose classes are the class \<open>int\<close> (address 1) and whose functions
  are the function \<open>add\<close> (address 2): it returns a value of class \<open>int\<close>, its objects
  are \<open>a\<close> and \<open>b\<close> of class \<open>int\<close> in this order (addresses 3 and 4), and its one
  statement (address 5) is a \<open>ReturnStatement\<close> whose expression (address 7) is an
  \<open>OperatorExpression\<close> for \<open>plus\<close> over the \<open>ObjectExpression\<close> of \<open>a\<close> and that of
  \<open>b\<close> (addresses 6 and 8). The translator turns the package into the C text of the
  claim.
\<close>

theorem add_round_trip:
  "run_fuel 62 (new_Lexer add_source) = Some (Inr add_tokens)
   \<and> map type add_tokens =
       [T_func_keyword, T_identifier, T_left_paren, T_identifier, T_identifier, T_comma,
        T_identifier, T_identifier, T_right_paren, T_arrow, T_identifier, T_left_curly,
        T_return_keyword, T_identifier, T_plus, T_identifier, T_semicolon, T_right_curly,
        T_end]
   \<and> (case Parser_run 27 (new_Parser add_tokens empty_Graph) of
        Some (Package_returned p g) \<Rightarrow>
          mem_Package g p =
            \<lparr> name = ''default'', parent = None, class_entities = [1], function_entities = [2] \<rparr>
          \<and> mem_Class g 1 = \<lparr> name = ''int'', parent = Some p \<rparr>
          \<and> mem_Function g 2 =
              \<lparr> name = ''add'', parent = Some p, return_type = R_value, return_class = Some 1,
                object_entities = [3, 4], statement_entities = [5] \<rparr>
          \<and> mem_Object g 3 = \<lparr> name = ''a'', parent = Some 2, cls = Some 1 \<rparr>
          \<and> mem_Object g 4 = \<lparr> name = ''b'', parent = Some 2, cls = Some 1 \<rparr>
          \<and> mem_Statement g 5 =
              \<lparr> name = [], parent = Some 2, dynamic_type = C_ReturnStatement,
                expression = Some 7, object = None, operator_type = O_plus,
                expression_entities = [] \<rparr>
          \<and> mem_Statement g 7 =
              \<lparr> name = [], parent = None, dynamic_type = C_OperatorExpression,
                expression = None, object = None, operator_type = O_plus,
                expression_entities = [6, 8] \<rparr>
          \<and> mem_Statement g 6 =
              \<lparr> name = [], parent = Some 7, dynamic_type = C_ObjectExpression,
                expression = None, object = Some 3, operator_type = O_plus,
                expression_entities = [] \<rparr>
          \<and> mem_Statement g 8 =
              \<lparr> name = [], parent = Some 7, dynamic_type = C_ObjectExpression,
                expression = None, object = Some 4, operator_type = O_plus,
                expression_entities = [] \<rparr>
          \<and> translate_Package 2 g p =
              Some (Inr (''int add(int a, int b) {'' @ [CHR 0x0A]
                         @ ''  return (a+b);'' @ [CHR 0x0A] @ ''}'' @ [CHR 0x0A]))
      | _ \<Rightarrow> False)"
proof -
  have "map type add_tokens =
       [T_func_keyword, T_identifier, T_left_paren, T_identifier, T_identifier, T_comma,
        T_identifier, T_identifier, T_right_paren, T_arrow, T_identifier, T_left_curly,
        T_return_keyword, T_identifier, T_plus, T_identifier, T_semicolon, T_right_curly,
        T_end]"
    by (simp add: add_tokens_def tok_def)
  with lex_add_source parse_add_tokens show ?thesis
    by (simp only: simp_thms)
qed

section \<open>Left-nested sums\<close>

lemma nth_of_take_drop:
  assumes "take n (drop i xs) = ys" and "k < length ys"
  shows "i + k < length xs \<and> xs ! (i + k) = ys ! k"
proof -
  from assms have k: "k < n" "k < length xs - i" by auto
  then have less: "i + k < length xs" by simp
  have "ys ! k = drop i xs ! k"
    using assms(1) k(1) by auto
  also have "\<dots> = xs ! (i + k)"
    using less by simp
  finally show ?thesis using less by simp
qed

text \<open>
  Whenever the parser expects a statement, no operator expression is under
  construction: this holds after the prologue and every iteration keeps it.
\<close>

lemma no_pending_result_simps [simp]:
  "no_pending_result (Continue P) = no_pending_operator P"
  "no_pending_result (Return p g)"
  "no_pending_result (Fail t)"
  "no_pending_result (Crash e)"
  by (simp_all add: no_pending_result_def)

lemma no_pending_advance:
  assumes "no_pending_operator P"
  shows "no_pending_result (advance_token P)"
  using assms
  by (simp add: advance_token_def no_pending_operator_def split: option.split)

lemma no_pending_fail: "no_pending_result (fail P)"
  by (simp add: fail_def split: option.split)

lemma no_pending_deref:
  assumes "\<And>a. q = Some a \<Longrightarrow> no_pending_result (k a)"
  shows "no_pending_result (deref q k)"
  using assms by (cases q) (simp_all add: deref_def)

lemma no_pending_case:
  assumes "no_pending_operator P"
  shows "ps_state P = P_start \<Longrightarrow> no_pending_result (case_start P t)"
    and "ps_state P = P_func_name \<Longrightarrow> no_pending_result (case_func_name P t)"
    and "ps_state P = P_func_params_start \<Longrightarrow> no_pending_result (case_func_params_start P t)"
    and "ps_state P = P_func_param_or_end \<Longrightarrow> no_pending_result (case_func_param_or_end P t)"
    and "ps_state P = P_func_param \<Longrightarrow> no_pending_result (case_func_param P t)"
    and "ps_state P = P_func_param_name \<Longrightarrow> no_pending_result (case_func_param_name P t)"
    and "ps_state P = P_func_params_next_or_end \<Longrightarrow>
           no_pending_result (case_func_params_next_or_end P t)"
    and "ps_state P = P_func_return_clause \<Longrightarrow> no_pending_result (case_func_return_clause P t)"
    and "ps_state P = P_func_return_type \<Longrightarrow> no_pending_result (case_func_return_type P t)"
    and "ps_state P = P_func_body \<Longrightarrow> no_pending_result (case_func_body P t)"
    and "ps_state P = P_statement \<Longrightarrow> no_pending_result (case_statement P t)"
    and "no_pending_result (case_expression_value P t)"
    and "no_pending_result (case_expression_operator P t)"
  using assms
  by (auto simp: case_defs split_beta no_pending_operator_def
      intro!: no_pending_advance no_pending_fail no_pending_deref
      split: option.split)

lemma no_pending_operator_step:
  assumes "no_pending_operator P" and "parser_step P = Continue P'"
  shows "no_pending_operator P'"
proof -
  have "no_pending_result (parser_step P)"
    using no_pending_case [OF assms(1)]
    by (simp add: parser_step_def split: option.split ParserState.split)
  with assms(2) show ?thesis by simp
qed

lemma no_pending_operator_steps:
  assumes "no_pending_operator P" and "parser_steps n P = Continue P'"
  shows "no_pending_operator P'"
  using assms
proof (induction n arbitrary: P)
  case 0
  then show ?case by simp
next
  case (Suc n)
  then show ?case
    by (cases "parser_step P") (auto dest: no_pending_operator_step)
qed

lemma statement_state_has_no_pending_operator:
  assumes "parser_steps n (run_prologue (new_Parser tokens g)) = Continue P"
    and "ps_state P = P_statement"
  shows "ps_operator_expression P = None"
proof -
  have "no_pending_operator (run_prologue (new_Parser tokens g))"
    by (simp add: no_pending_operator_def run_prologue_def new_Parser_def split_beta)
  from no_pending_operator_steps [OF this assms(1)] assms(2) show ?thesis
    by (simp add: no_pending_operator_def)
qed

text \<open>
  Claim C5. The parser stands in the state \<open>statement\<close> of a function \<open>f\<close> whose
  object list resolves the names \<open>a\<close>, \<open>b\<close> and \<open>c\<close>, no operator expression is under
  construction (as in every state \<open>statement\<close> that a run reaches), and the next seven
  tokens are \<open>return a + b + c ;\<close>. Seven iterations
  later it is back in the state \<open>statement\<close> and has appended a \<open>ReturnStatement\<close> (at
  the first free address \<open>n\<close>) to the statements of \<open>f\<close>. Its expression is the
  \<open>OperatorExpression\<close> for \<open>plus\<close> at \<open>n + 4\<close>, which has exactly two operands: the
  \<open>OperatorExpression\<close> for \<open>plus\<close> at \<open>n + 2\<close>, whose operands are the
  \<open>ObjectExpression\<close>s of \<open>a\<close> and of \<open>b\<close>, and the \<open>ObjectExpression\<close> of \<open>c\<close>.
\<close>

theorem return_a_plus_b_plus_c:
  assumes st: "ps_state P = P_statement" and f: "ps_function P = Some f"
    and oe: "ps_operator_expression P = None"
    and toks: "take 7 (drop (ps_iterator P) (ps_tokens P)) = [t0, ta, t1, tb, t2, tc, t3]"
    and ty: "type t0 = T_return_keyword" "type ta = T_identifier" "type t1 = T_plus"
      "type tb = T_identifier" "type t2 = T_plus" "type tc = T_identifier"
      "type t3 = T_semicolon"
    and lx: "lexeme ta = ''a''" "lexeme tb = ''b''" "lexeme tc = ''c''"
    and obs: "get_object (ps_graph P) f ''a'' = Some oa"
      "get_object (ps_graph P) f ''b'' = Some ob" "get_object (ps_graph P) f ''c'' = Some oc"
    and n: "n = allocated (ps_graph P)"
  shows "\<exists>P'. parser_steps 7 P = Continue P'
           \<and> ps_state P' = P_statement \<and> ps_iterator P' = ps_iterator P + 7
           \<and> statement_entities (mem_Function (ps_graph P') f) =
               statement_entities (mem_Function (ps_graph P) f) @ [n]
           \<and> dynamic_type (mem_Statement (ps_graph P') n) = C_ReturnStatement
           \<and> expression (mem_Statement (ps_graph P') n) = Some (n + 4)
           \<and> dynamic_type (mem_Statement (ps_graph P') (n + 4)) = C_OperatorExpression
           \<and> operator_type (mem_Statement (ps_graph P') (n + 4)) = O_plus
           \<and> expression_entities (mem_Statement (ps_graph P') (n + 4)) = [n + 2, n + 5]
           \<and> dynamic_type (mem_Statement (ps_graph P') (n + 2)) = C_OperatorExpression
           \<and> operator_type (mem_Statement (ps_graph P') (n + 2)) = O_plus
           \<and> expression_entities (mem_Statement (ps_graph P') (n + 2)) = [n + 1, n + 3]
           \<and> dynamic_type (mem_Statement (ps_graph P') (n + 1)) = C_ObjectExpression
           \<and> object (mem_Statement (ps_graph P') (n + 1)) = Some oa
           \<and> dynamic_type (mem_Statement (ps_graph P') (n + 3)) = C_ObjectExpression
           \<and> object (mem_Statement (ps_graph P') (n + 3)) = Some ob
           \<and> dynamic_type (mem_Statement (ps_graph P') (n + 5)) = C_ObjectExpression
           \<and> object (mem_Statement (ps_graph P') (n + 5)) = Some oc"
proof -
  note at = nth_of_take_drop [OF toks]
  have t: "ps_iterator P < length (ps_tokens P)" "ps_tokens P ! ps_iterator P = t0"
    "Suc (ps_iterator P) < length (ps_tokens P)" "ps_tokens P ! Suc (ps_iterator P) = ta"
    "Suc (Suc (ps_iterator P)) < length (ps_tokens P)"
    "ps_tokens P ! Suc (Suc (ps_iterator P)) = t1"
    "Suc (Suc (Suc (ps_iterator P))) < length (ps_tokens P)"
    "ps_tokens P ! Suc (Suc (Suc (ps_iterator P))) = tb"
    "Suc (Suc (Suc (Suc (ps_iterator P)))) < length (ps_tokens P)"
    "ps_tokens P ! Suc (Suc (Suc (Suc (ps_iterator P)))) = t2"
    "Suc (Suc (Suc (Suc (Suc (ps_iterator P))))) < length (ps_tokens P)"
    "ps_tokens P ! Suc (Suc (Suc (Suc (Suc (ps_iterator P))))) = tc"
    "Suc (Suc (Suc (Suc (Suc (Suc (ps_iterator P)))))) < length (ps_tokens P)"
    "ps_tokens P ! Suc (Suc (Suc (Suc (Suc (Suc (ps_iterator P)))))) = t3"
    using at [of 0] at [of 1] at [of 2] at [of 3] at [of 4] at [of 5] at [of 6]
    by (simp_all add: eval_nat_numeral)
  show ?thesis
    using st f oe ty lx obs
    by (simp add: eval_nat_numeral n t parser_step_def current_token_def advance_token_def
        fail_def deref_def case_statement_def case_expression_value_def
        case_expression_operator_def make_shared_Statement_def set_expression_def
        set_object_def set_operator_type_def get_object_def Function_add_Statement_def
        OperatorExpression_add_def EntityContainer_add_def)
qed

lemma abc_prefix:
  "\<exists>P. parser_steps 16 (run_prologue (new_Parser abc_tokens empty_Graph)) = Continue P
       \<and> ps_state P = P_statement \<and> ps_function P = Some 2
       \<and> ps_operator_expression P = None \<and> ps_iterator P = 15 \<and> ps_tokens P = abc_tokens
       \<and> get_object (ps_graph P) 2 ''a'' = Some 3
       \<and> get_object (ps_graph P) 2 ''b'' = Some 4
       \<and> get_object (ps_graph P) 2 ''c'' = Some 5
       \<and> allocated (ps_graph P) = 6
       \<and> statement_entities (mem_Function (ps_graph P) 2) = []"
  by (simp add: parser_defs abc_tokens_def tok_def eval_nat_numeral)

theorem return_a_plus_b_plus_c_witness:
  "\<exists>P P'. parser_steps 16 (run_prologue (new_Parser abc_tokens empty_Graph)) = Continue P
       \<and> parser_steps 7 P = Continue P'
       \<and> statement_entities (mem_Function (ps_graph P') 2) = [6]
       \<and> dynamic_type (mem_Statement (ps_graph P') 6) = C_ReturnStatement
       \<and> expression (mem_Statement (ps_graph P') 6) = Some 10
       \<and> expression_entities (mem_Statement (ps_graph P') 10) = [8, 11]
       \<and> expression_entities (mem_Statement (ps_graph P') 8) = [7, 9]
       \<and> object (mem_Statement (ps_graph P') 7) = Some 3
       \<and> object (mem_Statement (ps_graph P') 9) = Some 4
       \<and> object (mem_Statement (ps_graph P') 11) = Some 5"
proof -
  from abc_prefix obtain P where
    P: "parser_steps 16 (run_prologue (new_Parser abc_tokens empty_Graph)) = Continue P"
    and st: "ps_state P = P_statement" and f: "ps_function P = Some 2"
    and oe: "ps_operator_expression P = None"
    and it: "ps_iterator P = 15" and toks: "ps_tokens P = abc_tokens"
    and obs: "get_object (ps_graph P) 2 ''a'' = Some 3"
      "get_object (ps_graph P) 2 ''b'' = Some 4" "get_object (ps_graph P) 2 ''c'' = Some 5"
    and n: "6 = allocated (ps_graph P)"
    and stmts: "statement_entities (mem_Function (ps_graph P) 2) = []"
    by auto
  have seven: "take 7 (drop (ps_iterator P) (ps_tokens P)) =
      [tok T_return_keyword ''return'' 1 38, tok T_identifier ''a'' 1 45,
       tok T_plus ''+'' 1 46, tok T_identifier ''b'' 1 47, tok T_plus ''+'' 1 48,
       tok T_identifier ''c'' 1 49, tok T_semicolon '';'' 1 50]"
    by (simp add: it toks abc_tokens_def)
  from return_a_plus_b_plus_c [OF st f oe seven _ _ _ _ _ _ _ _ _ _ obs n]
  obtain P' where "parser_steps 7 P = Continue P'"
    and "statement_entities (mem_Function (ps_graph P') 2) = [6]"
    and "dynamic_type (mem_Statement (ps_graph P') 6) = C_ReturnStatement"
    and "expression (mem_Statement (ps_graph P') 6) = Some 10"
    and "expression_entities (mem_Statement (ps_graph P') 10) = [8, 11]"
    and "expression_entities (mem_Statement (ps_graph P') 8) = [7, 9]"
    and "object (mem_Statement (ps_graph P') 7) = Some 3"
    and "object (mem_Statement (ps_graph P') 9) = Some 4"
    and "object (mem_Statement (ps_graph P') 11) = Some 5"
    by (auto simp: tok_def stmts)
  with P show ?thesis by blast
qed

section \<open>Names that do not resolve\<close>

text \<open>
  Claim C6. The parser reads an identifier \<open>t\<close> in the state that expects the class
  of a parameter, and the class list of the package has no class of that name; or it
  reads \<open>t\<close> in the state that expects a value of a return expression, and the object
  list of the current function has no object of that name. Then the iteration ends
  in \<open>fail\<close> with the token \<open>t\<close> (its type, lexeme, line and column are what \<open>fail\<close>
  prints), and so does the run however many iterations it is allowed: the outcome
  carries the token and no package, and there is no later iteration that could read
  another token.
\<close>

theorem unresolved_name_fails:
  assumes "current_token P = Some t" and "type t = T_identifier"
    and "(ps_state P = P_func_param \<and>
            (\<exists>p. ps_package P = Some p \<and> get_class (ps_graph P) p (lexeme t) = None))
         \<or> (ps_state P = P_expression_value \<and>
            (\<exists>f. ps_function P = Some f \<and> get_object (ps_graph P) f (lexeme t) = None))"
  shows "parser_step P = Fail t \<and> (\<forall>n. parser_loop (Suc n) P = Some (Exit_failure t))"
proof -
  have "parser_step P = Fail t"
    using assms
    by (auto simp: parser_step_def case_func_param_def case_expression_value_def
        deref_def fail_def current_token_def split: if_splits)
  then show ?thesis by simp
qed

lemma unknown_class_prefix:
  "\<exists>P. parser_steps 4 (run_prologue (new_Parser unknown_class_tokens empty_Graph)) = Continue P
       \<and> current_token P = Some (tok T_identifier ''foo'' 1 8)
       \<and> ps_state P = P_func_param \<and> ps_package P = Some 0
       \<and> get_class (ps_graph P) 0 ''foo'' = None"
  by (simp add: parser_defs unknown_class_tokens_def tok_def eval_nat_numeral)

lemma unknown_object_prefix:
  "\<exists>P. parser_steps 10 (run_prologue (new_Parser unknown_object_tokens empty_Graph)) = Continue P
       \<and> current_token P = Some (tok T_identifier ''b'' 1 24)
       \<and> ps_state P = P_expression_value \<and> ps_function P = Some 2
       \<and> get_object (ps_graph P) 2 ''b'' = None"
  by (simp add: parser_defs unknown_object_tokens_def tok_def eval_nat_numeral)

theorem unresolved_name_fails_witness:
  "(\<exists>P. parser_steps 4 (run_prologue (new_Parser unknown_class_tokens empty_Graph)) = Continue P
       \<and> parser_step P = Fail (tok T_identifier ''foo'' 1 8)
       \<and> parser_loop 1 P = Some (Exit_failure (tok T_identifier ''foo'' 1 8)))
   \<and> (\<exists>P. parser_steps 10 (run_prologue (new_Parser unknown_object_tokens empty_Graph)) = Continue P
       \<and> parser_step P = Fail (tok T_identifier ''b'' 1 24)
       \<and> parser_loop 1 P = Some (Exit_failure (tok T_identifier ''b'' 1 24)))"
proof -
  from unknown_class_prefix obtain P where
    P: "parser_steps 4 (run_prologue (new_Parser unknown_class_tokens empty_Graph)) = Continue P"
    and t: "current_token P = Some (tok T_identifier ''foo'' 1 8)"
    and s: "ps_state P = P_func_param" "ps_package P = Some 0"
      "get_class (ps_graph P) 0 ''foo'' = None"
    by auto
  have "parser_step P = Fail (tok T_identifier ''foo'' 1 8)
        \<and> (\<forall>n. parser_loop (Suc n) P = Some (Exit_failure (tok T_identifier ''foo'' 1 8)))"
    by (rule unresolved_name_fails [OF t]) (simp_all add: tok_def s)
  then have a: "parser_step P = Fail (tok T_identifier ''foo'' 1 8)
        \<and> parser_loop 1 P = Some (Exit_failure (tok T_identifier ''foo'' 1 8))"
    by (simp del: parser_loop.simps)
  from unknown_object_prefix obtain Q where
    Q: "parser_steps 10 (run_prologue (new_Parser unknown_object_tokens empty_Graph)) = Continue Q"
    and u: "current_token Q = Some (tok T_identifier ''b'' 1 24)"
    and r: "ps_state Q = P_expression_value" "ps_function Q = Some 2"
      "get_object (ps_graph Q) 2 ''b'' = None"
    by auto
  have "parser_step Q = Fail (tok T_identifier ''b'' 1 24)
        \<and> (\<forall>n. parser_loop (Suc n) Q = Some (Exit_failure (tok T_identifier ''b'' 1 24)))"
    by (rule unresolved_name_fails [OF u]) (simp_all add: tok_def r)
  then have b: "parser_step Q = Fail (tok T_identifier ''b'' 1 24)
        \<and> parser_loop 1 Q = Some (Exit_failure (tok T_identifier ''b'' 1 24))"
    by (simp del: parser_loop.simps)
  from P a Q b show ?thesis by blast
qed

section \<open>The parser stays inside the token list\<close>

lemma within_update [simp]:
  "within tokens (P\<lparr>ps_state := s\<rparr>) = within tokens P"
  "within tokens (P\<lparr>ps_package := a\<rparr>) = within tokens P"
  "within tokens (P\<lparr>ps_function := a\<rparr>) = within tokens P"
  "within tokens (P\<lparr>ps_object := a\<rparr>) = within tokens P"
  "within tokens (P\<lparr>ps_cls := a\<rparr>) = within tokens P"
  "within tokens (P\<lparr>ps_return_statement := a\<rparr>) = within tokens P"
  "within tokens (P\<lparr>ps_object_expression := a\<rparr>) = within tokens P"
  "within tokens (P\<lparr>ps_operator_expression := a\<rparr>) = within tokens P"
  "within tokens (P\<lparr>ps_graph := g\<rparr>) = within tokens P"
  by (simp_all add: within_def)

lemma safe_Continue [simp]: "safe_result tokens (Continue P) = within tokens P"
  by (simp add: safe_result_def)

lemma safe_Return [simp]: "safe_result tokens (Return p g)"
  by (simp add: safe_result_def)

lemma safe_Crash_Null [simp]: "safe_result tokens (Crash Null_dereference)"
  by (simp add: safe_result_def)

lemma advance_token_safe:
  assumes "within tokens P" and "type (last tokens) = T_end"
  shows "safe_result tokens (advance_token P)"
proof -
  from assms(1) have P: "ps_tokens P = tokens" "ps_iterator P < length tokens"
    by (simp_all add: within_def)
  show ?thesis
  proof (cases "type (tokens ! ps_iterator P) = T_end")
    case True
    with P assms(1) show ?thesis by (simp add: advance_token_def current_token_def)
  next
    case False
    from P(2) have ne: "tokens \<noteq> []" by auto
    have "ps_iterator P \<noteq> length tokens - 1"
      using False assms(2) ne by (auto simp: last_conv_nth)
    with P(2) have "ps_iterator P + 1 < length tokens" by simp
    with P False show ?thesis
      by (simp add: advance_token_def current_token_def within_def)
  qed
qed

lemma fail_safe:
  assumes "within tokens P"
  shows "safe_result tokens (fail P)"
  using assms by (simp add: fail_def current_token_def within_def safe_result_def)

lemma deref_safe:
  assumes "\<And>a. p = Some a \<Longrightarrow> safe_result tokens (k a)"
  shows "safe_result tokens (deref p k)"
  using assms by (cases p) (simp_all add: deref_def)

lemma case_safe:
  assumes "within tokens P" and "type (last tokens) = T_end"
  shows "safe_result tokens (case_start P t)"
    and "safe_result tokens (case_func_name P t)"
    and "safe_result tokens (case_func_params_start P t)"
    and "safe_result tokens (case_func_param_or_end P t)"
    and "safe_result tokens (case_func_param P t)"
    and "safe_result tokens (case_func_param_name P t)"
    and "safe_result tokens (case_func_params_next_or_end P t)"
    and "safe_result tokens (case_func_return_clause P t)"
    and "safe_result tokens (case_func_return_type P t)"
    and "safe_result tokens (case_func_body P t)"
    and "safe_result tokens (case_statement P t)"
    and "safe_result tokens (case_expression_value P t)"
    and "safe_result tokens (case_expression_operator P t)"
  using assms
  by (auto simp: case_defs intro!: advance_token_safe fail_safe deref_safe
      split: option.split prod.split)

lemma parser_step_safe:
  assumes "within tokens P" and "type (last tokens) = T_end"
  shows "safe_result tokens (parser_step P)"
proof -
  from assms(1) have "current_token P = Some (tokens ! ps_iterator P)"
    by (simp add: current_token_def within_def)
  then show ?thesis
    using case_safe [OF assms] by (simp add: parser_step_def split: ParserState.split)
qed

lemma parser_steps_safe:
  assumes "within tokens P" and "type (last tokens) = T_end"
  shows "safe_result tokens (parser_steps n P)"
  using assms(1)
proof (induction n arbitrary: P)
  case 0
  then show ?case by simp
next
  case (Suc n)
  from parser_step_safe [OF Suc.prems assms(2)] Suc.IH show ?case
    by (cases "parser_step P") (simp_all add: safe_result_def)
qed

lemma parser_loop_safe:
  assumes "within tokens P" and "type (last tokens) = T_end"
  shows "parser_loop n P \<noteq> Some (Undefined Past_the_end)"
  using assms(1)
proof (induction n arbitrary: P)
  case 0
  then show ?case by simp
next
  case (Suc n)
  from parser_step_safe [OF Suc.prems assms(2)] Suc.IH show ?case
    by (cases "parser_step P") (simp_all add: safe_result_def)
qed

lemma within_prologue:
  assumes "tokens \<noteq> []"
  shows "within tokens (run_prologue (new_Parser tokens g))"
  using assms
  by (simp add: run_prologue_def new_Parser_def within_def split: prod.split)

text \<open>
  Claim C10. The token list is not empty and its last element is of type \<open>end\<close>. Then
  no iteration of \<open>Parser::run\<close> dereferences the iterator at the end of the list,
  whatever the tokens are: after any number of iterations the parser holds the list
  it was given and its iterator denotes an element of it, so that \<open>current_token\<close> is
  that element; the run does not end in a read past the end; and \<open>advance_token\<close>
  leaves the parser as it is when the current token is of type \<open>end\<close>.
\<close>

theorem parser_never_reads_past_the_end:
  assumes "tokens \<noteq> []" and "type (last tokens) = T_end"
  shows "parser_steps n (run_prologue (new_Parser tokens g)) \<noteq> Crash Past_the_end
     \<and> (\<forall>P. parser_steps n (run_prologue (new_Parser tokens g)) = Continue P \<longrightarrow>
           ps_tokens P = tokens \<and> ps_iterator P < length tokens
           \<and> current_token P = Some (tokens ! ps_iterator P))
     \<and> Parser_run n (new_Parser tokens g) \<noteq> Some (Undefined Past_the_end)
     \<and> (\<forall>P t. current_token P = Some t \<and> type t = T_end \<longrightarrow> advance_token P = Continue P)"
proof -
  note start = within_prologue [OF assms(1), of g]
  have "safe_result tokens (parser_steps n (run_prologue (new_Parser tokens g)))"
    by (rule parser_steps_safe [OF start assms(2)])
  then have a: "parser_steps n (run_prologue (new_Parser tokens g)) \<noteq> Crash Past_the_end"
    and b: "\<forall>P. parser_steps n (run_prologue (new_Parser tokens g)) = Continue P \<longrightarrow>
           ps_tokens P = tokens \<and> ps_iterator P < length tokens
           \<and> current_token P = Some (tokens ! ps_iterator P)"
    by (auto simp: safe_result_def within_def current_token_def)
  have c: "Parser_run n (new_Parser tokens g) \<noteq> Some (Undefined Past_the_end)"
    unfolding Parser_run_def by (rule parser_loop_safe [OF start assms(2)])
  have d: "\<forall>P t. current_token P = Some t \<and> type t = T_end \<longrightarrow> advance_token P = Continue P"
    by (simp add: advance_token_def)
  from a b c d show ?thesis by blast
qed

lemma seven_steps_continue:
  "\<exists>P. parser_steps 7 (run_prologue (new_Parser unknown_object_tokens empty_Graph)) = Continue P"
  by (simp add: parser_defs unknown_object_tokens_def tok_def eval_nat_numeral)

theorem parser_never_reads_past_the_end_witness:
  "parser_steps 7 (run_prologue (new_Parser unknown_object_tokens empty_Graph))
       \<noteq> Crash Past_the_end
   \<and> (\<exists>P. parser_steps 7 (run_prologue (new_Parser unknown_object_tokens empty_Graph))
              = Continue P
          \<and> ps_tokens P = unknown_object_tokens
          \<and> ps_iterator P < length unknown_object_tokens)
   \<and> Parser_run 20 (new_Parser unknown_object_tokens empty_Graph)
       \<noteq> Some (Undefined Past_the_end)
   \<and> advance_token (new_Parser [tok T_end [] 1 1] empty_Graph)
       = Continue (new_Parser [tok T_end [] 1 1] empty_Graph)"
proof -
  have h: "unknown_object_tokens \<noteq> []" "type (last unknown_object_tokens) = T_end"
    by (simp_all add: unknown_object_tokens_def tok_def)
  note seven = parser_never_reads_past_the_end [OF h, of 7 empty_Graph]
  note twenty = parser_never_reads_past_the_end [OF h, of 20 empty_Graph]
  from seven_steps_continue obtain P where
    P: "parser_steps 7 (run_prologue (new_Parser unknown_object_tokens empty_Graph)) = Continue P"
    ..
  with seven have "ps_tokens P = unknown_object_tokens
      \<and> ps_iterator P < length unknown_object_tokens"
    by blast
  with P have a: "\<exists>P. parser_steps 7 (run_prologue (new_Parser unknown_object_tokens empty_Graph))
              = Continue P
          \<and> ps_tokens P = unknown_object_tokens
          \<and> ps_iterator P < length unknown_object_tokens"
    by blast
  have "current_token (new_Parser [tok T_end [] 1 1] empty_Graph) = Some (tok T_end [] 1 1)
      \<and> type (tok T_end [] 1 1) = T_end"
    by (simp add: current_token_def new_Parser_def tok_def)
  with seven have b: "advance_token (new_Parser [tok T_end [] 1 1] empty_Graph)
       = Continue (new_Parser [tok T_end [] 1 1] empty_Graph)"
    by blast
  from seven twenty a b show ?thesis by blast
qed

section \<open>Return mode and return class\<close>

text \<open>
  Claim C4 says that in a returned package no \<open>ReturnStatement\<close> of a function with the
  return mode \<open>none\<close> carries a value. On the tokens of \<open>func f(int a) { return a; }\<close>
  the parser returns a package whose function has the return mode \<open>none\<close> and a
  \<open>ReturnStatement\<close> whose expression is the \<open>ObjectExpression\<close> of \<open>a\<close>.
\<close>

theorem return_with_value_in_function_without_return_type:
  "(case Parser_run 14 (new_Parser void_return_tokens empty_Graph) of
      Some (Package_returned p g) \<Rightarrow>
        function_entities (mem_Package g p) = [2]
        \<and> return_type (mem_Function g 2) = R_none
        \<and> return_class (mem_Function g 2) = None
        \<and> statement_entities (mem_Function g 2) = [4]
        \<and> dynamic_type (mem_Statement g 4) = C_ReturnStatement
        \<and> expression (mem_Statement g 4) = Some 5
        \<and> dynamic_type (mem_Statement g 5) = C_ObjectExpression
        \<and> object (mem_Statement g 5) = Some 3
    | _ \<Rightarrow> False)"
  by (simp add: parser_defs void_return_tokens_def tok_def eval_nat_numeral)

lemma get_class_member:
  assumes "get_class g p nm = Some c"
  shows "c \<in> set (class_entities (mem_Package g p))"
  using assms EntityContainer_get_Some [of "mem_Class g" "class_entities (mem_Package g p)" nm c]
  by (auto simp: get_class_def)

lemma ok_Continue [simp]: "ok_result p (Continue P) = parser_ok p P"
  by (simp add: ok_result_def)

lemma ok_Return [simp]: "ok_result p (Return p' g) = (p' = p \<and> functions_ok p g)"
  by (simp add: ok_result_def)

lemma ok_Crash [simp]: "ok_result p (Crash e)"
  by (simp add: ok_result_def)

lemma ok_Fail [simp]: "ok_result p (Fail t)"
  by (simp add: ok_result_def)

lemma advance_token_ok:
  assumes "parser_ok p P"
  shows "ok_result p (advance_token P)"
  using assms by (simp add: advance_token_def parser_ok_def split: option.split)

lemma fail_ok: "ok_result p (fail P)"
  by (simp add: fail_def split: option.split)

lemma deref_ok:
  assumes "\<And>a. q = Some a \<Longrightarrow> ok_result p (k a)"
  shows "ok_result p (deref q k)"
  using assms by (cases q) (simp_all add: deref_def)

lemma functions_ok_preserved:
  assumes "functions_ok p g"
    and "function_entities (mem_Package g' p) = function_entities (mem_Package g p)"
    and "class_entities (mem_Package g' p) = class_entities (mem_Package g p)"
    and "allocated g \<le> allocated g'"
    and "\<And>f. return_type (mem_Function g' f) = return_type (mem_Function g f)"
    and "\<And>f. return_class (mem_Function g' f) = return_class (mem_Function g f)"
  shows "functions_ok p g'"
  unfolding functions_ok_def return_ok_def
proof (intro ballI)
  fix f assume "f \<in> set (function_entities (mem_Package g' p))"
  with assms(2) have "f \<in> set (function_entities (mem_Package g p))" by simp
  with assms(1) have "f < allocated g" and "return_ok g p f"
    by (simp_all add: functions_ok_def)
  with assms(3-6) show "f < allocated g' \<and>
      (return_type (mem_Function g' f) = R_none \<longrightarrow> return_class (mem_Function g' f) = None) \<and>
      (return_type (mem_Function g' f) = R_value \<longrightarrow>
        (\<exists>c. return_class (mem_Function g' f) = Some c
           \<and> c \<in> set (class_entities (mem_Package g' p))))"
    by (simp add: return_ok_def)
qed

lemma ok_Function_set_name:
  "functions_ok p g \<Longrightarrow> functions_ok p (Function_set_name f nm g)"
  by (erule functions_ok_preserved) (simp_all add: Function_set_name_def)

lemma ok_Object_set_name:
  "functions_ok p g \<Longrightarrow> functions_ok p (Object_set_name ob nm g)"
  by (erule functions_ok_preserved) (simp_all add: Object_set_name_def)

lemma ok_new_Object:
  "functions_ok p g \<Longrightarrow> make_shared_Object g = (ob, g1) \<Longrightarrow>
     functions_ok p (Function_add_Object f ob (set_cls ob c g1))"
  by (erule functions_ok_preserved)
     (auto simp: make_shared_Object_def set_cls_def Function_add_Object_def
        EntityContainer_add_def)

lemma ok_new_Statement:
  "functions_ok p g \<Longrightarrow> functions_ok p (snd (make_shared_Statement c g))"
  by (erule functions_ok_preserved) (auto simp: make_shared_Statement_def)

lemma ok_Function_add_Statement:
  "functions_ok p g \<Longrightarrow> functions_ok p (Function_add_Statement f r g)"
  by (erule functions_ok_preserved)
     (simp_all add: Function_add_Statement_def EntityContainer_add_def)

lemma ok_set_object:
  "functions_ok p g \<Longrightarrow> functions_ok p (set_object e ob g)"
  by (erule functions_ok_preserved) (simp_all add: set_object_def)

lemma ok_set_expression:
  "functions_ok p g \<Longrightarrow> functions_ok p (set_expression r e g)"
  by (erule functions_ok_preserved) (simp_all add: set_expression_def)

lemma ok_set_operator_type:
  "functions_ok p g \<Longrightarrow> functions_ok p (set_operator_type e ot g)"
  by (erule functions_ok_preserved) (simp_all add: set_operator_type_def)

lemma ok_OperatorExpression_add:
  "functions_ok p g \<Longrightarrow> functions_ok p (OperatorExpression_add c e g)"
  by (erule functions_ok_preserved)
     (simp_all add: OperatorExpression_add_def EntityContainer_add_def)

lemma ok_set_return:
  assumes "functions_ok p g" and "c \<in> set (class_entities (mem_Package g p))"
  shows "functions_ok p (set_return_class f (Some c) (set_return_type f R_value g))"
  using assms
  by (simp add: functions_ok_def return_ok_def set_return_class_def set_return_type_def)

lemma ok_new_Function:
  assumes "functions_ok p g" and "make_shared_Function g = (f, g1)"
  shows "functions_ok p (Package_add_Function p f (set_return_type f R_none g1))"
proof -
  from assms(2) have f: "f = allocated g"
    and g1: "g1 = g\<lparr> mem_Function := (mem_Function g)(allocated g :=
             \<lparr> name = [], parent = None, return_type = R_none, return_class = None,
               object_entities = [], statement_entities = [] \<rparr>),
         allocated := allocated g + 1 \<rparr>"
    by (auto simp: make_shared_Function_def)
  have old: "x < allocated g \<and> return_ok g p x"
    if "x \<in> set (function_entities (mem_Package g p))" for x
    using assms(1) that by (simp add: functions_ok_def)
  show ?thesis
    unfolding functions_ok_def
  proof (intro ballI)
    fix x
    assume "x \<in> set (function_entities
      (mem_Package (Package_add_Function p f (set_return_type f R_none g1)) p))"
    then have "x \<in> set (function_entities (mem_Package g p)) \<or> x = allocated g"
      by (auto simp: f g1 Package_add_Function_def set_return_type_def EntityContainer_add_def)
    then show "x < allocated (Package_add_Function p f (set_return_type f R_none g1))
        \<and> return_ok (Package_add_Function p f (set_return_type f R_none g1)) p x"
    proof
      assume "x \<in> set (function_entities (mem_Package g p))"
      from old [OF this] show ?thesis
        by (simp add: f g1 Package_add_Function_def set_return_type_def EntityContainer_add_def
            return_ok_def)
    next
      assume "x = allocated g"
      then show ?thesis
        by (simp add: f g1 Package_add_Function_def set_return_type_def EntityContainer_add_def
            return_ok_def)
    qed
  qed
qed

lemmas ok_graph =
  ok_Function_set_name ok_Object_set_name ok_new_Object ok_new_Statement
  ok_Function_add_Statement ok_set_object ok_set_expression ok_set_operator_type
  ok_OperatorExpression_add ok_set_return ok_new_Function

lemma case_start_ok:
  assumes "parser_ok p P"
  shows "ok_result p (case_start P t)"
  using assms
  by (auto simp: case_start_def parser_ok_def
      intro!: advance_token_ok fail_ok deref_ok ok_new_Function split: prod.split)

lemma case_func_name_ok:
  assumes "parser_ok p P"
  shows "ok_result p (case_func_name P t)"
  using assms
  by (auto simp: case_func_name_def parser_ok_def
      intro!: advance_token_ok fail_ok deref_ok ok_Function_set_name)

lemma case_func_param_ok:
  assumes "parser_ok p P"
  shows "ok_result p (case_func_param P t)"
  using assms
  by (auto simp: case_func_param_def parser_ok_def
      intro!: advance_token_ok fail_ok deref_ok ok_new_Object
      split: prod.split option.split)

lemma case_func_param_name_ok:
  assumes "parser_ok p P"
  shows "ok_result p (case_func_param_name P t)"
  using assms
  by (auto simp: case_func_param_name_def parser_ok_def
      intro!: advance_token_ok fail_ok deref_ok ok_Object_set_name)

lemma case_func_return_type_ok:
  assumes "parser_ok p P"
  shows "ok_result p (case_func_return_type P t)"
  using assms
  by (auto simp: case_func_return_type_def parser_ok_def
      intro!: advance_token_ok fail_ok deref_ok ok_set_return get_class_member
      split: prod.split option.split)

lemma case_statement_ok:
  assumes "parser_ok p P"
  shows "ok_result p (case_statement P t)"
  using assms
  by (auto simp: case_statement_def parser_ok_def split_beta
      intro!: advance_token_ok fail_ok deref_ok ok_Function_add_Statement ok_new_Statement)

lemma case_expression_value_ok:
  assumes "parser_ok p P"
  shows "ok_result p (case_expression_value P t)"
  using assms
  by (auto simp: case_expression_value_def parser_ok_def split_beta
      intro!: advance_token_ok fail_ok deref_ok ok_set_object ok_new_Statement
      split: option.split)

lemma case_expression_operator_ok:
  assumes "parser_ok p P"
  shows "ok_result p (case_expression_operator P t)"
  using assms
  by (auto simp: case_expression_operator_def parser_ok_def split_beta
      intro!: advance_token_ok fail_ok deref_ok ok_set_expression ok_OperatorExpression_add
        ok_set_operator_type ok_new_Statement
      split: option.split)

lemma case_punctuation_ok:
  assumes "parser_ok p P"
  shows "ok_result p (case_func_params_start P t)"
    and "ok_result p (case_func_param_or_end P t)"
    and "ok_result p (case_func_params_next_or_end P t)"
    and "ok_result p (case_func_return_clause P t)"
    and "ok_result p (case_func_body P t)"
  using assms
  by (auto simp: case_func_params_start_def case_func_param_or_end_def
      case_func_params_next_or_end_def case_func_return_clause_def case_func_body_def
      parser_ok_def intro!: advance_token_ok fail_ok)

lemma parser_step_ok:
  assumes "parser_ok p P"
  shows "ok_result p (parser_step P)"
  using case_start_ok [OF assms] case_func_name_ok [OF assms] case_func_param_ok [OF assms]
    case_func_param_name_ok [OF assms] case_func_return_type_ok [OF assms]
    case_statement_ok [OF assms] case_expression_value_ok [OF assms]
    case_expression_operator_ok [OF assms] case_punctuation_ok [OF assms]
  by (simp add: parser_step_def split: option.split ParserState.split)

lemma parser_loop_ok:
  assumes "parser_ok p P" and "parser_loop n P = Some (Package_returned p' g)"
  shows "p' = p \<and> functions_ok p g"
  using assms
proof (induction n arbitrary: P)
  case 0
  then show ?case by simp
next
  case (Suc n)
  from parser_step_ok [OF Suc.prems(1)] Suc.prems(2) Suc.IH show ?case
    by (cases "parser_step P") auto
qed

lemma prologue_ok:
  "parser_ok (allocated g0) (run_prologue (new_Parser tokens g0))"
  by (simp add: run_prologue_def new_Parser_def parser_ok_def functions_ok_def
      make_shared_Package_def
      make_shared_Class_def Package_set_name_def Class_set_name_def Package_add_Class_def
      EntityContainer_add_def)

text \<open>
  Claim C4, amended. Every function of a package that \<open>Parser::run\<close> returns has a
  return mode that agrees with its return class: with the mode \<open>none\<close> it holds no
  class, with the mode \<open>value\<close> it holds a class, and that class is one of the
  classes of the package. (Nothing relates the return statements of the function to
  its mode.)
\<close>

theorem returned_functions_return_mode:
  assumes "Parser_run n (new_Parser tokens g0) = Some (Package_returned p g)"
    and "f \<in> set (function_entities (mem_Package g p))"
  shows "(return_type (mem_Function g f) = R_none \<longrightarrow> return_class (mem_Function g f) = None)
       \<and> (return_type (mem_Function g f) = R_value \<longrightarrow>
            (\<exists>c. return_class (mem_Function g f) = Some c
                 \<and> c \<in> set (class_entities (mem_Package g p))))"
proof -
  from assms(1) have "parser_loop n (run_prologue (new_Parser tokens g0))
      = Some (Package_returned p g)"
    by (simp add: Parser_run_def)
  from parser_loop_ok [OF prologue_ok this] have "functions_ok p g" by simp
  with assms(2) have "return_ok g p f" by (simp add: functions_ok_def)
  then show ?thesis
    by (simp add: return_ok_def)
qed

lemma parse_add_returned:
  "\<exists>g. Parser_run 27 (new_Parser add_tokens empty_Graph) = Some (Package_returned 0 g)
       \<and> function_entities (mem_Package g 0) = [2]
       \<and> return_type (mem_Function g 2) = R_value"
  by (simp add: parser_defs add_tokens_def tok_def eval_nat_numeral)

lemma parse_void_returned:
  "\<exists>g. Parser_run 14 (new_Parser void_return_tokens empty_Graph) = Some (Package_returned 0 g)
       \<and> function_entities (mem_Package g 0) = [2]
       \<and> return_type (mem_Function g 2) = R_none"
  by (simp add: parser_defs void_return_tokens_def tok_def eval_nat_numeral)

theorem returned_functions_return_mode_witness:
  "(\<exists>g. Parser_run 27 (new_Parser add_tokens empty_Graph) = Some (Package_returned 0 g)
       \<and> 2 \<in> set (function_entities (mem_Package g 0))
       \<and> return_type (mem_Function g 2) = R_value
       \<and> (\<exists>c. return_class (mem_Function g 2) = Some c
              \<and> c \<in> set (class_entities (mem_Package g 0))))
   \<and> (\<exists>g. Parser_run 14 (new_Parser void_return_tokens empty_Graph)
              = Some (Package_returned 0 g)
       \<and> 2 \<in> set (function_entities (mem_Package g 0))
       \<and> return_type (mem_Function g 2) = R_none
       \<and> return_class (mem_Function g 2) = None)"
proof -
  from parse_add_returned obtain g where
    run: "Parser_run 27 (new_Parser add_tokens empty_Graph) = Some (Package_returned 0 g)"
    and fs: "function_entities (mem_Package g 0) = [2]"
    and rt: "return_type (mem_Function g 2) = R_value"
    by blast
  from fs have mem: "2 \<in> set (function_entities (mem_Package g 0))" by simp
  from parse_void_returned obtain g' where
    run': "Parser_run 14 (new_Parser void_return_tokens empty_Graph)
             = Some (Package_returned 0 g')"
    and fs': "function_entities (mem_Package g' 0) = [2]"
    and rt': "return_type (mem_Function g' 2) = R_none"
    by blast
  from fs' have mem': "2 \<in> set (function_entities (mem_Package g' 0))" by simp
  from returned_functions_return_mode [OF run mem] rt run mem
    returned_functions_return_mode [OF run' mem'] rt' run' mem'
  show ?thesis by blast
qed

section \<open>Line endings\<close>

text \<open>
  The lexer on a text with LF line breaks is compared with the lexer on the same
  text with CR or CR LF line breaks. An iteration on the first corresponds to one
  iteration on the second, or to two where the first consumes a line break: the
  second passes through the state \<open>cr_or_crlf\<close> (or its twin inside a multi-line
  comment).
\<close>

lemma with_breaks_Nil [simp]: "with_breaks b [] = []"
  by (simp add: with_breaks_def)

lemma with_breaks_Cons:
  "with_breaks b (c # cs) = (if c = CHR 0x0A then break_chars b else [c]) @ with_breaks b cs"
  by (simp add: with_breaks_def)

lemma with_breaks_append [simp]: "with_breaks b (xs @ ys) = with_breaks b xs @ with_breaks b ys"
  by (simp add: with_breaks_def)

lemma with_breaks_single:
  "with_breaks b [c] = (if c = CHR 0x0A then break_chars b else [c])"
  by (simp add: with_breaks_def)

lemma with_breaks_no_LF: "CHR 0x0A \<notin> set xs \<Longrightarrow> with_breaks b xs = xs"
  by (induction xs) (auto simp: with_breaks_Cons)

lemma with_breaks_eq_Nil [simp]: "with_breaks b xs = [] \<longleftrightarrow> xs = []"
  by (cases xs) (auto simp: with_breaks_Cons break_chars_def)

lemma length_with_breaks_take_Suc:
  assumes "i < length t"
  shows "length (with_breaks b (take (Suc i) t)) =
           length (with_breaks b (take i t))
             + (if t ! i = CHR 0x0A then length (break_chars b) else 1)"
  using assms by (simp add: take_Suc_conv_app_nth with_breaks_single)

lemma with_breaks_split:
  assumes "i < length t"
  shows "with_breaks b t =
           with_breaks b (take i t) @ with_breaks b [t ! i] @ with_breaks b (drop (Suc i) t)"
proof -
  have "t = take i t @ [t ! i] @ drop (Suc i) t"
    using assms by (simp add: id_take_nth_drop)
  then have "with_breaks b t = with_breaks b (take i t @ [t ! i] @ drop (Suc i) t)"
    by simp
  then show ?thesis by (simp only: with_breaks_append)
qed

lemma nth_with_breaks:
  assumes "i < length t"
  shows "with_breaks b t ! length (with_breaks b (take i t)) =
           (if t ! i = CHR 0x0A then CHR 0x0D else t ! i)"
  by (subst with_breaks_split [OF assms])
     (simp add: nth_append with_breaks_single break_chars_def)

lemma length_with_breaks_less:
  assumes "i < length t"
  shows "length (with_breaks b (take i t)) < length (with_breaks b t)"
proof -
  have "length (with_breaks b t) = length (with_breaks b (take i t))
        + length (with_breaks b [t ! i]) + length (with_breaks b (drop (Suc i) t))"
    by (subst with_breaks_split [OF assms]) simp
  moreover have "length (with_breaks b [t ! i]) > 0" by simp
  ultimately show ?thesis by linarith
qed

lemma length_with_breaks_last:
  assumes "i < length t" and "last t \<noteq> CHR 0x0A"
  shows "length (with_breaks b (take i t)) = length (with_breaks b t) - 1 \<longleftrightarrow> i = length t - 1"
proof
  assume "i = length t - 1"
  moreover from assms(1) have "t \<noteq> []" by auto
  ultimately have "t ! i \<noteq> CHR 0x0A" "drop (Suc i) t = []"
    using assms by (simp_all add: last_conv_nth)
  moreover have "length (with_breaks b t) = length (with_breaks b (take i t))
        + length (with_breaks b [t ! i]) + length (with_breaks b (drop (Suc i) t))"
    by (subst with_breaks_split [OF assms(1)]) simp
  ultimately show "length (with_breaks b (take i t)) = length (with_breaks b t) - 1"
    by (simp add: with_breaks_single)
next
  assume eq: "length (with_breaks b (take i t)) = length (with_breaks b t) - 1"
  show "i = length t - 1"
  proof (rule ccontr)
    assume "i \<noteq> length t - 1"
    with assms(1) have "drop (Suc i) t \<noteq> []" by simp
    then have "length (with_breaks b (drop (Suc i) t)) > 0" by simp
    moreover have "length (with_breaks b [t ! i]) > 0" by simp
    moreover have "length (with_breaks b t) = length (with_breaks b (take i t))
        + length (with_breaks b [t ! i]) + length (with_breaks b (drop (Suc i) t))"
      by (subst with_breaks_split [OF assms(1)]) simp
    ultimately show False using eq by linarith
  qed
qed

lemma size_minus_1_with_breaks:
  assumes "t \<noteq> []"
  shows "size_minus_1 (with_breaks b t) = length (with_breaks b t) - 1"
    and "size_minus_1 t = length t - 1"
  using assms by (simp_all add: size_minus_1_def)

lemma lexeme_with_breaks:
  assumes "s \<le> i" and "i \<le> length t"
  shows "take (length (with_breaks b (take i t)) - length (with_breaks b (take s t)))
           (drop (length (with_breaks b (take s t))) (with_breaks b t))
         = with_breaks b (take (i - s) (drop s t))"
proof -
  have t: "t = take s t @ take (i - s) (drop s t) @ drop i t"
    using assms
    by (metis append_take_drop_id drop_drop add.commute le_add_diff_inverse)
  have ti: "take i t = take s t @ take (i - s) (drop s t)"
    using assms by (metis le_add_diff_inverse take_add)
  have "with_breaks b t = with_breaks b (take s t) @ with_breaks b (take (i - s) (drop s t))
          @ with_breaks b (drop i t)"
    by (subst t) (simp only: with_breaks_append)
  moreover have "length (with_breaks b (take i t)) - length (with_breaks b (take s t))
      = length (with_breaks b (take (i - s) (drop s t)))"
    by (subst ti) simp
  ultimately show ?thesis by simp
qed

lemma get_lexeme_relocate:
  assumes "lx_start_index L \<le> lx_index L" and "lx_index L \<le> length (lx_source L)"
  shows "get_lexeme (relocate b L) = with_breaks b (get_lexeme L)"
proof -
  have "get_lexeme L = take (lx_index L - lx_start_index L) (drop (lx_start_index L) (lx_source L))"
    by (simp add: get_lexeme_def Let_def)
  moreover have "get_lexeme (relocate b L) =
      take (length (with_breaks b (take (lx_index L) (lx_source L)))
              - length (with_breaks b (take (lx_start_index L) (lx_source L))))
        (drop (length (with_breaks b (take (lx_start_index L) (lx_source L))))
           (with_breaks b (lx_source L)))"
    by (simp add: get_lexeme_def Let_def relocate_def)
  ultimately show ?thesis
    using lexeme_with_breaks [OF assms] by simp
qed

lemma isalnum_LF_CR [simp]:
  "\<not> isalnum (CHR 0x0A)" "\<not> isalnum (CHR 0x0D)" "\<not> isalpha (CHR 0x0A)" "\<not> isalpha (CHR 0x0D)"
  by (simp_all add: isalnum_def isalpha_def)

lemma current_char_placed:
  assumes "placed t L"
  shows "current_char L = t ! lx_index L"
  using assms by (simp add: placed_def current_char_def)

lemma current_char_relocate:
  assumes "placed t L"
  shows "current_char (relocate b L) =
           (if current_char L = CHR 0x0A then CHR 0x0D else current_char L)"
  using assms
  by (simp add: placed_def current_char_def relocate_def length_with_breaks_less nth_with_breaks)

lemma advance_char_relocate:
  assumes "good_text t" and "placed t L" and "current_char L \<noteq> CHR 0x0A"
  shows "advance_char (relocate b L) = relocate b (advance_char L)"
proof -
  from assms(1,2) have t: "lx_source L = t" "t \<noteq> []" "last t \<noteq> CHR 0x0A"
    and i: "lx_index L < length t"
    by (simp_all add: good_text_def placed_def)
  from assms(2,3) have c: "t ! lx_index L \<noteq> CHR 0x0A"
    by (simp add: current_char_placed)
  note last = length_with_breaks_last [OF i t(3), of b]
  show ?thesis
  proof (cases "lx_index L = length t - 1")
    case True
    with last have "length (with_breaks b (take (lx_index L) t)) = length (with_breaks b t) - 1"
      by simp
    with True t show ?thesis
      by (simp add: advance_char_def relocate_def size_minus_1_with_breaks)
  next
    case False
    with last have "length (with_breaks b (take (lx_index L) t)) \<noteq> length (with_breaks b t) - 1"
      by simp
    with False t i c show ?thesis
      by (simp add: advance_char_def relocate_def size_minus_1_with_breaks
          length_with_breaks_take_Suc)
  qed
qed

lemma relocate_simps [simp]:
  "set_state s (relocate b L) = relocate b (set_state s L)"
  "start_lexeme (relocate b L) = relocate b (start_lexeme L)"
  "advance_line (relocate b L) = relocate b (advance_line L)"
  "lx_state (relocate b L) = lx_state L"
  "lx_tokens (relocate b L) = lx_tokens L"
  by (simp_all add: set_state_def start_lexeme_def advance_line_def relocate_def)

lemma advance_tab_relocate:
  "advance_tab (relocate b L) = map_option (relocate b) (advance_tab L)"
  by (simp add: advance_tab_def relocate_def)

lemma add_token_relocate:
  assumes "lx_start_index L \<le> lx_index L" and "lx_index L \<le> length (lx_source L)"
    and "CHR 0x0A \<notin> set (get_lexeme L)"
  shows "add_token ty (relocate b L) = relocate b (add_token ty L)"
proof -
  have "get_lexeme (relocate b L) = get_lexeme L"
    using get_lexeme_relocate [OF assms(1,2)] with_breaks_no_LF [OF assms(3)] by simp
  then show ?thesis
    by (simp add: add_token_def) (simp add: relocate_def)
qed

lemma sim_identifier:
  assumes "good_text t" and "placed t L" and "lx_state L = L_identifier_or_keyword"
    and "CHR 0x0A \<notin> set (get_lexeme L)"
  shows "lexer_step (relocate b L) = relocate_result b (lexer_step L)"
proof -
  from assms(2) have le: "lx_start_index L \<le> lx_index L" "lx_index L \<le> length (lx_source L)"
    by (simp_all add: placed_def)
  have lx: "get_lexeme (relocate b L) = get_lexeme L"
    using get_lexeme_relocate [OF le] with_breaks_no_LF [OF assms(4)] by simp
  show ?thesis
  proof (cases "current_char L = CHR 0x0A")
    case True
    then show ?thesis
      using assms(3)
      by (simp add: lexer_step_def current_char_relocate [OF assms(2)] lx
          add_token_relocate [OF le assms(4)])
  next
    case False
    then show ?thesis
      using assms(3)
      by (simp add: lexer_step_def current_char_relocate [OF assms(2)] lx
          add_token_relocate [OF le assms(4)] advance_char_relocate [OF assms(1,2)])
  qed
qed

lemma placed_ops [simp]:
  "placed t (set_state s L) = placed t L"
  "placed t (advance_line L) = placed t L"
  "placed t (add_token ty L) = placed t L"
  "placed t (start_lexeme L) = (lx_source L = t \<and> lx_index L < length t)"
  by (auto simp: placed_def set_state_def advance_line_def add_token_def start_lexeme_def)

lemma placed_advance_char [simp]:
  assumes "placed t L"
  shows "placed t (advance_char L)"
  using assms by (auto simp: placed_def advance_char_def size_minus_1_def)

lemma placed_advance_tab:
  assumes "advance_tab L = Some L'"
  shows "placed t L' = placed t L"
  using assms by (auto simp: placed_def advance_tab_def split: if_splits)

lemma lx_state_advance_tab:
  assumes "advance_tab L = Some L'"
  shows "lx_state L' = lx_state L"
  using assms by (auto simp: advance_tab_def split: if_splits)

lemma current_char_ops [simp]:
  "current_char (set_state s L) = current_char L"
  "current_char (advance_line L) = current_char L"
  "current_char (add_token ty L) = current_char L"
  "current_char (start_lexeme L) = current_char L"
  by (simp_all add: current_char_def set_state_def advance_line_def add_token_def
      start_lexeme_def)

lemma get_lexeme_ops [simp]:
  "get_lexeme (set_state s L) = get_lexeme L"
  "get_lexeme (advance_line L) = get_lexeme L"
  "get_lexeme (add_token ty L) = get_lexeme L"
  "get_lexeme (start_lexeme L) = []"
  by (simp_all add: get_lexeme_def set_state_def advance_line_def add_token_def
      start_lexeme_def)

lemma lx_state_ops [simp]:
  "lx_state (set_state s L) = s"
  "lx_state (advance_line L) = lx_state L"
  "lx_state (add_token ty L) = lx_state L"
  "lx_state (start_lexeme L) = lx_state L"
  "lx_state (advance_char L) = lx_state L"
  by (simp_all add: set_state_def advance_line_def add_token_def start_lexeme_def
      advance_char_def)

lemma get_lexeme_advance_char:
  assumes "placed t L"
  shows "get_lexeme (advance_char L) =
           (if lx_index L = length t - 1 then get_lexeme L
            else get_lexeme L @ [current_char L])"
proof -
  from assms have t: "lx_source L = t" and i: "lx_index L < length t"
    and s: "lx_start_index L \<le> lx_index L"
    by (simp_all add: placed_def)
  have lx: "\<And>L. get_lexeme L =
      take (lx_index L - lx_start_index L) (drop (lx_start_index L) (lx_source L))"
    by (simp add: get_lexeme_def Let_def)
  show ?thesis
  proof (cases "lx_index L = length t - 1")
    case True
    moreover from i have "t \<noteq> []" by auto
    ultimately show ?thesis using t by (simp add: advance_char_def size_minus_1_def)
  next
    case False
    have "take (Suc (lx_index L) - lx_start_index L) (drop (lx_start_index L) t)
        = take (lx_index L - lx_start_index L) (drop (lx_start_index L) t) @ [t ! lx_index L]"
      using s i by (simp add: Suc_diff_le take_Suc_conv_app_nth)
    moreover from i have "t \<noteq> []" by auto
    ultimately show ?thesis using False t i
      by (simp add: lx advance_char_def size_minus_1_def current_char_def)
  qed
qed

lemma no_LF_advance_char:
  assumes "placed t L" and "CHR 0x0A \<notin> set (get_lexeme L)" and "current_char L \<noteq> CHR 0x0A"
  shows "CHR 0x0A \<notin> set (get_lexeme (advance_char L))"
  using assms by (simp add: get_lexeme_advance_char)

lemma add_token_relocate_placed:
  assumes "placed t L" and "CHR 0x0A \<notin> set (get_lexeme L)"
  shows "add_token ty (relocate b L) = relocate b (add_token ty L)"
  using assms by (intro add_token_relocate) (simp_all add: placed_def)

lemma current_char_relocate_no_LF:
  assumes "placed t L" and "current_char L \<noteq> CHR 0x0A"
  shows "current_char (relocate b L) = current_char L"
  using assms by (simp add: current_char_relocate)

lemma current_char_no_CR:
  assumes "good_text t" and "placed t L"
  shows "current_char L \<noteq> CHR 0x0D"
proof -
  from assms(2) have "current_char L \<in> set t"
    by (simp add: placed_def current_char_def)
  with assms(1) show ?thesis by (auto simp: good_text_def)
qed

lemma sim_start:
  assumes "good_text t" and "placed t L" and "lx_state L = L_start"
    and "current_char L \<noteq> CHR 0x0A"
  shows "lexer_step (relocate b L) = relocate_result b (lexer_step L)"
proof -
  define X where "X = start_lexeme L"
  from assms(2) have "lx_source L = t \<and> lx_index L < length t"
    by (simp add: placed_def)
  then have X: "placed t X" by (simp add: X_def)
  have c: "current_char X = current_char L" by (simp add: X_def)
  with assms(4) have nl: "current_char X \<noteq> CHR 0x0A" by simp
  have cr: "current_char X \<noteq> CHR 0x0D"
    using current_char_no_CR [OF assms(1) X] .
  have cm: "current_char (relocate b X) = current_char X"
    using current_char_relocate_no_LF [OF X nl] .
  have adv: "advance_char (relocate b X) = relocate b (advance_char X)"
    using advance_char_relocate [OF assms(1) X nl] .
  have lxm: "CHR 0x0A \<notin> set (get_lexeme (advance_char X))"
    using no_LF_advance_char [OF X _ nl] by (simp add: X_def)
  have tk: "\<And>ty. add_token ty (relocate b (advance_char X)) = relocate b (add_token ty (advance_char X))"
    using add_token_relocate_placed [OF placed_advance_char [OF X] lxm] .
  have tk0: "\<And>ty. add_token ty (relocate b X) = relocate b (add_token ty X)"
    using add_token_relocate_placed [OF X] by (simp add: X_def)
  have step: "lexer_step (relocate b L) = step_start (relocate b L)"
    "lexer_step L = step_start L"
    using assms(3) by (simp_all add: lexer_step_def)
  show ?thesis
    unfolding step step_start_def Let_def relocate_simps X_def [symmetric] cm adv
    using nl cr
    by (simp add: single_char_token_def adv tk tk0 advance_tab_relocate split: option.split)
qed

lemma sim_divide_or_comment:
  assumes "good_text t" and "placed t L" and "lx_state L = L_divide_or_comment"
    and "CHR 0x0A \<notin> set (get_lexeme L)"
  shows "lexer_step (relocate b L) = relocate_result b (lexer_step L)"
proof (cases "current_char L = CHR 0x0A")
  case True
  then show ?thesis
    using assms(3)
    by (simp add: lexer_step_def current_char_relocate [OF assms(2)]
        add_token_relocate_placed [OF assms(2,4)])
next
  case False
  then show ?thesis
    using assms(3)
    by (simp add: lexer_step_def current_char_relocate [OF assms(2)]
        add_token_relocate_placed [OF assms(2,4)] advance_char_relocate [OF assms(1,2)])
qed

lemma sim_minus_or_arrow:
  assumes "good_text t" and "placed t L" and "lx_state L = L_minus_or_arrow"
    and "CHR 0x0A \<notin> set (get_lexeme L)"
  shows "lexer_step (relocate b L) = relocate_result b (lexer_step L)"
proof (cases "current_char L = CHR 0x0A")
  case True
  then show ?thesis
    using assms(3)
    by (simp add: lexer_step_def current_char_relocate [OF assms(2)]
        add_token_relocate_placed [OF assms(2,4)])
next
  case False
  have "add_token ty (relocate b (advance_char L)) = relocate b (add_token ty (advance_char L))"
    for ty
    using add_token_relocate_placed [OF placed_advance_char [OF assms(2)]
        no_LF_advance_char [OF assms(2,4) False]] .
  with False show ?thesis
    using assms(3)
    by (simp add: lexer_step_def current_char_relocate [OF assms(2)]
        add_token_relocate_placed [OF assms(2,4)] advance_char_relocate [OF assms(1,2)])
qed

lemma sim_maybe_end:
  assumes "good_text t" and "placed t L" and "lx_state L = L_multi_line_comment_maybe_end"
  shows "lexer_step (relocate b L) = relocate_result b (lexer_step L)"
proof (cases "current_char L = CHR 0x0A")
  case True
  then show ?thesis
    using assms(3) by (simp add: lexer_step_def current_char_relocate [OF assms(2)])
next
  case False
  then show ?thesis
    using assms(3)
    by (simp add: lexer_step_def current_char_relocate [OF assms(2)]
        advance_char_relocate [OF assms(1,2)])
qed

lemma sim_multi_line_comment:
  assumes "good_text t" and "placed t L" and "lx_state L = L_multi_line_comment"
    and "current_char L \<noteq> CHR 0x0A"
  shows "lexer_step (relocate b L) = relocate_result b (lexer_step L)"
  using assms(3,4) current_char_no_CR [OF assms(1,2)]
  by (simp add: lexer_step_def current_char_relocate [OF assms(2)]
      advance_char_relocate [OF assms(1,2)])

lemma sim_single_line_comment:
  assumes "good_text t" and "placed t L" and "lx_state L = L_single_line_comment"
    and "current_char L \<noteq> CHR 0x0A"
  shows "lexer_step (relocate b L) = relocate_result b (lexer_step L)"
  using assms(3,4) current_char_no_CR [OF assms(1,2)]
  by (simp add: lexer_step_def current_char_relocate [OF assms(2)]
      advance_char_relocate [OF assms(1,2)])

lemma set_state_ops [simp]:
  "advance_char (set_state s L) = set_state s (advance_char L)"
  "advance_line (set_state s L) = set_state s (advance_line L)"
  "set_state s (set_state s' L) = set_state s L"
  by (simp_all add: set_state_def advance_char_def advance_line_def)

lemma set_state_same:
  assumes "lx_state L = s"
  shows "set_state s L = L"
  using assms by (simp add: set_state_def)

lemma after_break:
  assumes "good_text t" and "placed t L" and "current_char L = CHR 0x0A"
  shows "\<exists>M2. (if current_char (advance_char (relocate b L)) = CHR 0x0A
               then advance_char (advance_char (relocate b L))
               else advance_char (relocate b L)) = M2
           \<and> advance_line M2 = relocate b (advance_line (advance_char L))"
proof -
  from assms(1,2) have t: "lx_source L = t" "t \<noteq> []" "last t \<noteq> CHR 0x0A"
    and i: "lx_index L < length t"
    by (simp_all add: good_text_def placed_def)
  from assms(2,3) have c: "t ! lx_index L = CHR 0x0A"
    by (simp add: current_char_placed)
  have nl: "lx_index L \<noteq> length t - 1"
    using c t(2,3) by (auto simp: last_conv_nth)
  with i have i1: "Suc (lx_index L) < length t" by simp
  define g where "g = length (with_breaks b (take (lx_index L) t))"
  have g1: "length (with_breaks b (take (Suc (lx_index L)) t)) = g + length (break_chars b)"
    using length_with_breaks_take_Suc [OF i, of b] c by (simp add: g_def)
  have less: "g + length (break_chars b) < length (with_breaks b t)"
    using length_with_breaks_less [OF i1, of b] g1 by simp
  have gl: "g \<noteq> length (with_breaks b t) - 1"
    using length_with_breaks_last [OF i t(3), of b] nl by (simp add: g_def)
  define M1 where "M1 = (relocate b L)\<lparr> lx_index := g + 1,
      lx_column_number := lx_column_number L + 1 \<rparr>"
  have M1: "advance_char (relocate b L) = M1"
    using gl t by (simp add: advance_char_def relocate_def size_minus_1_with_breaks g_def M1_def)
  have L1: "advance_char L = L\<lparr> lx_index := lx_index L + 1,
      lx_column_number := lx_column_number L + 1 \<rparr>"
    using nl t by (simp add: advance_char_def size_minus_1_with_breaks)
  have split: "with_breaks b t = with_breaks b (take (lx_index L) t) @ break_chars b
      @ with_breaks b (drop (Suc (lx_index L)) t)"
    using with_breaks_split [OF i, of b] c by (simp add: with_breaks_single)
  have rest: "with_breaks b (drop (Suc (lx_index L)) t) \<noteq> []"
    using i1 by simp
  have hd_rest: "hd (with_breaks b (drop (Suc (lx_index L)) t)) \<noteq> CHR 0x0A"
  proof -
    from i1 have "drop (Suc (lx_index L)) t = t ! Suc (lx_index L) # drop (Suc (Suc (lx_index L))) t"
      by (simp add: Cons_nth_drop_Suc)
    then show ?thesis
      by (simp add: with_breaks_Cons break_chars_def)
  qed
  have src: "lx_source M1 = with_breaks b t" "lx_index M1 = g + 1"
    using t by (simp_all add: M1_def relocate_def)
  show ?thesis
  proof (cases b)
    case True
    have nth: "with_breaks b t ! (g + 1) = CHR 0x0A"
      by (subst split) (simp add: nth_append g_def True break_chars_def)
    have lt: "g + 1 < length (with_breaks b t)" and ne: "g + 1 \<noteq> length (with_breaks b t) - 1"
      using less True by (simp_all add: break_chars_def)
    have cc: "current_char M1 = CHR 0x0A"
      using nth lt by (simp add: current_char_def src)
    have M2: "advance_char M1 = M1\<lparr> lx_index := g + 2,
        lx_column_number := lx_column_number L + 2 \<rparr>"
      using ne t(2) by (simp add: advance_char_def src size_minus_1_with_breaks) (simp add: M1_def)
    have "advance_line (M1\<lparr> lx_index := g + 2, lx_column_number := lx_column_number L + 2 \<rparr>)
        = relocate b (advance_line (advance_char L))"
      using g1 True t
      by (simp add: L1 M1_def advance_line_def relocate_def break_chars_def g_def)
    then have "advance_line (advance_char M1) = relocate b (advance_line (advance_char L))"
      by (simp only: M2)
    with cc show ?thesis by (simp add: M1)
  next
    case False
    have "with_breaks b t ! (g + 1) = hd (with_breaks b (drop (Suc (lx_index L)) t))"
      using rest
      by (subst split) (simp add: nth_append g_def False break_chars_def hd_conv_nth)
    with hd_rest have nth: "with_breaks b t ! (g + 1) \<noteq> CHR 0x0A" by simp
    have lt: "g + 1 < length (with_breaks b t)"
      using less False by (simp add: break_chars_def)
    have cc: "current_char M1 \<noteq> CHR 0x0A"
      using nth lt by (simp add: current_char_def src)
    have "advance_line M1 = relocate b (advance_line (advance_char L))"
      using g1 False t
      by (simp add: L1 M1_def advance_line_def relocate_def break_chars_def g_def)
    with cc show ?thesis by (simp add: M1)
  qed
qed

lemma cr_step:
  assumes "good_text t" and "placed t L" and "current_char L = CHR 0x0A"
  shows "lexer_step (set_state L_cr_or_crlf (advance_char (relocate b L)))
           = Next (relocate b (set_state L_start (advance_line (advance_char L))))"
    and "lexer_step (set_state L_multi_line_comment_cr_or_crlf (advance_char (relocate b L)))
           = Next (relocate b (set_state L_multi_line_comment (advance_line (advance_char L))))"
proof -
  define M1 where "M1 = advance_char (relocate b L)"
  from after_break [OF assms, of b] obtain M2 where
    M2: "(if current_char M1 = CHR 0x0A then advance_char M1 else M1) = M2"
    and eq: "advance_line M2 = relocate b (advance_line (advance_char L))"
    unfolding M1_def by blast
  have a: "advance_line (if current_char (set_state s M1) = CHR 0x0A
        then advance_char (set_state s M1) else set_state s M1)
      = set_state s (relocate b (advance_line (advance_char L)))" for s
  proof (cases "current_char M1 = CHR 0x0A")
    case True
    with M2 eq show ?thesis by (simp del: relocate_simps)
  next
    case False
    with M2 eq show ?thesis by (simp del: relocate_simps)
  qed
  show "lexer_step (set_state L_cr_or_crlf (advance_char (relocate b L)))
           = Next (relocate b (set_state L_start (advance_line (advance_char L))))"
    unfolding lexer_step_def M1_def [symmetric]
    by (simp add: a del: relocate_simps set_state_ops current_char_ops) simp
  show "lexer_step (set_state L_multi_line_comment_cr_or_crlf (advance_char (relocate b L)))
           = Next (relocate b (set_state L_multi_line_comment (advance_line (advance_char L))))"
    unfolding lexer_step_def M1_def [symmetric]
    by (simp add: a del: relocate_simps set_state_ops current_char_ops) simp
qed

lemma break_start:
  assumes "good_text t" and "placed t L" and "lx_state L = L_start"
    and "current_char L = CHR 0x0A"
  shows "\<exists>L' M1. lexer_step L = Next L' \<and> lexer_step (relocate b L) = Next M1
           \<and> lexer_step M1 = Next (relocate b L')"
proof -
  define X where "X = start_lexeme L"
  from assms(2) have "lx_source L = t \<and> lx_index L < length t"
    by (simp add: placed_def)
  then have X: "placed t X" by (simp add: X_def)
  have c: "current_char X = CHR 0x0A" using assms(4) by (simp add: X_def)
  have sX: "lx_state (advance_line (advance_char X)) = L_start"
    using assms(3) by (simp add: X_def)
  have cm: "current_char (relocate b X) = CHR 0x0D"
    using current_char_relocate [OF X, of b] c by simp
  have 1: "lexer_step L = Next (advance_line (advance_char X))"
    using assms(3) c
    by (simp add: lexer_step_def step_start_def Let_def X_def [symmetric])
  have 2: "lexer_step (relocate b L) = Next (set_state L_cr_or_crlf (advance_char (relocate b X)))"
    using assms(3) cm
    by (simp add: lexer_step_def step_start_def Let_def X_def [symmetric])
  have 3: "lexer_step (set_state L_cr_or_crlf (advance_char (relocate b X)))
      = Next (relocate b (advance_line (advance_char X)))"
    using cr_step(1) [OF assms(1) X c, of b] set_state_same [OF sX] by simp
  from 1 2 3 show ?thesis by blast
qed

lemma break_single_line_comment:
  assumes "good_text t" and "placed t L" and "lx_state L = L_single_line_comment"
    and "current_char L = CHR 0x0A"
  shows "\<exists>L' M1. lexer_step L = Next L' \<and> lexer_step (relocate b L) = Next M1
           \<and> lexer_step M1 = Next (relocate b L')"
proof -
  have cm: "current_char (relocate b L) = CHR 0x0D"
    using current_char_relocate [OF assms(2), of b] assms(4) by simp
  have 1: "lexer_step L = Next (set_state L_start (advance_line (advance_char L)))"
    using assms(3,4) by (simp add: lexer_step_def)
  have 2: "lexer_step (relocate b L) = Next (set_state L_cr_or_crlf (advance_char (relocate b L)))"
    using assms(3) cm by (simp add: lexer_step_def)
  from 1 2 cr_step(1) [OF assms(1,2,4), of b] show ?thesis by blast
qed

lemma break_multi_line_comment:
  assumes "good_text t" and "placed t L" and "lx_state L = L_multi_line_comment"
    and "current_char L = CHR 0x0A"
  shows "\<exists>L' M1. lexer_step L = Next L' \<and> lexer_step (relocate b L) = Next M1
           \<and> lexer_step M1 = Next (relocate b L')"
proof -
  have cm: "current_char (relocate b L) = CHR 0x0D"
    using current_char_relocate [OF assms(2), of b] assms(4) by simp
  have sL: "lx_state (advance_line (advance_char L)) = L_multi_line_comment"
    using assms(3) by simp
  have 1: "lexer_step L = Next (advance_line (advance_char L))"
    using assms(3,4) by (simp add: lexer_step_def)
  have 2: "lexer_step (relocate b L) =
      Next (set_state L_multi_line_comment_cr_or_crlf (advance_char (relocate b L)))"
    using assms(3) cm by (simp add: lexer_step_def)
  have 3: "lexer_step (set_state L_multi_line_comment_cr_or_crlf (advance_char (relocate b L)))
      = Next (relocate b (advance_line (advance_char L)))"
    using cr_step(2) [OF assms(1,2,4), of b] set_state_same [OF sL] by simp
  from 1 2 3 show ?thesis by blast
qed

lemma simulation:
  assumes "good_text t" and "tracked t L"
  shows "lexer_step (relocate b L) = relocate_result b (lexer_step L)
       \<or> (\<exists>L' M1. lexer_step L = Next L' \<and> lexer_step (relocate b L) = Next M1
              \<and> lexer_step M1 = Next (relocate b L'))"
proof -
  from assms(2) have p: "placed t L"
    and s: "lx_state L \<noteq> L_cr_or_crlf" "lx_state L \<noteq> L_multi_line_comment_cr_or_crlf"
    and lx: "tokenish (lx_state L) \<longrightarrow> CHR 0x0A \<notin> set (get_lexeme L)"
    by (simp_all add: tracked_def)
  show ?thesis
  proof (cases "lx_state L")
    case L_cr_or_crlf
    with s show ?thesis by simp
  next
    case L_divide_or_comment
    with lx sim_divide_or_comment [OF assms(1) p] show ?thesis by (simp add: tokenish_def)
  next
    case L_identifier_or_keyword
    with lx sim_identifier [OF assms(1) p] show ?thesis by (simp add: tokenish_def)
  next
    case L_minus_or_arrow
    with lx sim_minus_or_arrow [OF assms(1) p] show ?thesis by (simp add: tokenish_def)
  next
    case L_multi_line_comment
    with sim_multi_line_comment [OF assms(1) p] break_multi_line_comment [OF assms(1) p]
    show ?thesis by (cases "current_char L = CHR 0x0A") blast+
  next
    case L_multi_line_comment_cr_or_crlf
    with s show ?thesis by simp
  next
    case L_multi_line_comment_maybe_end
    with sim_maybe_end [OF assms(1) p] show ?thesis by simp
  next
    case L_single_line_comment
    with sim_single_line_comment [OF assms(1) p] break_single_line_comment [OF assms(1) p]
    show ?thesis by (cases "current_char L = CHR 0x0A") blast+
  next
    case L_start
    with sim_start [OF assms(1) p] break_start [OF assms(1) p]
    show ?thesis by (cases "current_char L = CHR 0x0A") blast+
  qed
qed

lemma tracked_step:
  assumes "good_text t" and "tracked t L" and "lexer_step L = Next L'"
  shows "tracked t L'"
proof -
  from assms(2) have p: "placed t L"
    and s: "lx_state L \<noteq> L_cr_or_crlf" "lx_state L \<noteq> L_multi_line_comment_cr_or_crlf"
    and lx: "tokenish (lx_state L) \<longrightarrow> CHR 0x0A \<notin> set (get_lexeme L)"
    by (simp_all add: tracked_def)
  note cr = current_char_no_CR [OF assms(1) p]
  note pa = placed_advance_char [OF p]
  show ?thesis
  proof (cases "lx_state L")
    case L_cr_or_crlf
    with s show ?thesis by simp
  next
    case L_divide_or_comment
    with assms(3) pa p show ?thesis
      by (auto simp: lexer_step_def tracked_def tokenish_def split: if_splits)
  next
    case L_identifier_or_keyword
    have "current_char L \<noteq> CHR 0x0A" if "isalnum (current_char L)"
      using that by auto
    with L_identifier_or_keyword assms(3) pa p lx show ?thesis
      by (auto simp: lexer_step_def tracked_def tokenish_def get_lexeme_advance_char [OF p]
          split: if_splits)
  next
    case L_minus_or_arrow
    with assms(3) pa p show ?thesis
      by (auto simp: lexer_step_def tracked_def tokenish_def split: if_splits)
  next
    case L_multi_line_comment
    with assms(3) pa p cr show ?thesis
      by (auto simp: lexer_step_def tracked_def tokenish_def split: if_splits)
  next
    case L_multi_line_comment_cr_or_crlf
    with s show ?thesis by simp
  next
    case L_multi_line_comment_maybe_end
    with assms(3) pa p show ?thesis
      by (auto simp: lexer_step_def tracked_def tokenish_def split: if_splits)
  next
    case L_single_line_comment
    with assms(3) pa p cr show ?thesis
      by (auto simp: lexer_step_def tracked_def tokenish_def split: if_splits)
  next
    case L_start
    define X where "X = start_lexeme L"
    from p have "lx_source L = t \<and> lx_index L < length t"
      by (simp add: placed_def)
    then have X: "placed t X" by (simp add: X_def)
    have c: "current_char X = current_char L" by (simp add: X_def)
    have sX: "lx_state X = L_start" using L_start by (simp add: X_def)
    have lxX: "get_lexeme (advance_char X) =
        (if lx_index X = length t - 1 then [] else [current_char X])"
      using get_lexeme_advance_char [OF X] by (simp add: X_def)
    have step: "step_start L = Next L'"
      using assms(3) L_start by (simp add: lexer_step_def)
    have al: "current_char X \<noteq> CHR 0x0A" if "isalpha (current_char X)"
      using that by auto
    show ?thesis
      using step cr sX X placed_advance_char [OF X] al
      unfolding step_start_def Let_def X_def [symmetric] c [symmetric]
      by (auto simp: tracked_def tokenish_def single_char_token_def lxX
          placed_advance_tab lx_state_advance_tab split: if_splits option.splits)
  qed
qed

lemma run_fuel_Next:
  assumes "lexer_step L = Next L'"
  shows "run_fuel (Suc n) L = run_fuel n L'"
  using assms by simp

lemma run_forward:
  assumes "good_text t"
  shows "tracked t L \<Longrightarrow> run_fuel n L = Some r \<Longrightarrow> \<exists>m. run_fuel m (relocate b L) = Some r"
proof (induction n arbitrary: L)
  case 0
  then show ?case by simp
next
  case (Suc n)
  show ?case
  proof (cases "lexer_step L")
    case (Next L')
    from tracked_step [OF assms Suc.prems(1) Next] have tr: "tracked t L'" .
    from Suc.prems(2) Next have "run_fuel n L' = Some r" by simp
    from Suc.IH [OF tr this] obtain m where m: "run_fuel m (relocate b L') = Some r" ..
    from simulation [OF assms Suc.prems(1), of b] show ?thesis
    proof
      assume "lexer_step (relocate b L) = relocate_result b (lexer_step L)"
      with Next have "lexer_step (relocate b L) = Next (relocate b L')" by simp
      then have "run_fuel (Suc m) (relocate b L) = Some r" using m by simp
      then show ?thesis ..
    next
      assume "\<exists>L' M1. lexer_step L = Next L' \<and> lexer_step (relocate b L) = Next M1
              \<and> lexer_step M1 = Next (relocate b L')"
      with Next obtain M1 where "lexer_step (relocate b L) = Next M1"
        and "lexer_step M1 = Next (relocate b L')" by auto
      then have "run_fuel (Suc (Suc m)) (relocate b L) = Some r" using m by simp
      then show ?thesis ..
    qed
  next
    case (Done ts)
    with simulation [OF assms Suc.prems(1), of b]
    have "lexer_step (relocate b L) = Done ts" by auto
    with Done Suc.prems(2) have "run_fuel (Suc 0) (relocate b L) = Some r" by simp
    then show ?thesis ..
  next
    case (Fault e)
    with simulation [OF assms Suc.prems(1), of b]
    have "lexer_step (relocate b L) = Fault e" by auto
    with Fault Suc.prems(2) have "run_fuel (Suc 0) (relocate b L) = Some r" by simp
    then show ?thesis ..
  qed
qed

lemma run_backward:
  assumes "good_text t"
  shows "tracked t L \<Longrightarrow> run_fuel m (relocate b L) = Some r \<Longrightarrow> \<exists>n. run_fuel n L = Some r"
proof (induction m arbitrary: L rule: less_induct)
  case (less m)
  from less.prems(2) obtain m' where m: "m = Suc m'" by (cases m) auto
  show ?case
  proof (cases "lexer_step L")
    case (Next L')
    from tracked_step [OF assms less.prems(1) Next] have tr: "tracked t L'" .
    have "\<exists>k < m. run_fuel k (relocate b L') = Some r"
      using simulation [OF assms less.prems(1), of b]
    proof
      assume "lexer_step (relocate b L) = relocate_result b (lexer_step L)"
      with Next have "lexer_step (relocate b L) = Next (relocate b L')" by simp
      with less.prems(2) m have "run_fuel m' (relocate b L') = Some r" by simp
      with m show ?thesis by auto
    next
      assume "\<exists>L' M1. lexer_step L = Next L' \<and> lexer_step (relocate b L) = Next M1
              \<and> lexer_step M1 = Next (relocate b L')"
      with Next obtain M1 where 1: "lexer_step (relocate b L) = Next M1"
        and 2: "lexer_step M1 = Next (relocate b L')" by auto
      from 1 less.prems(2) m have r1: "run_fuel m' M1 = Some r" by simp
      then obtain m'' where m'': "m' = Suc m''" by (cases m') auto
      with r1 2 have "run_fuel m'' (relocate b L') = Some r" by simp
      moreover from m m'' have "m'' < m" by simp
      ultimately show ?thesis by blast
    qed
    then obtain k where "k < m" and "run_fuel k (relocate b L') = Some r" by blast
    from less.IH [OF this(1) tr this(2)] obtain n where "run_fuel n L' = Some r" ..
    with Next have "run_fuel (Suc n) L = Some r" by simp
    then show ?thesis ..
  next
    case (Done ts)
    with simulation [OF assms less.prems(1), of b]
    have "lexer_step (relocate b L) = Done ts" by auto
    with less.prems(2) m have "r = Inr ts" by simp
    with Done have "run_fuel (Suc 0) L = Some r" by simp
    then show ?thesis ..
  next
    case (Fault e)
    with simulation [OF assms less.prems(1), of b]
    have "lexer_step (relocate b L) = Fault e" by auto
    with less.prems(2) m have "r = Inl e" by simp
    with Fault have "run_fuel (Suc 0) L = Some r" by simp
    then show ?thesis ..
  qed
qed

lemma with_breaks_join_lines:
  assumes "\<forall>l\<in>set ls. CHR 0x0A \<notin> set l"
  shows "with_breaks b (join_lines [CHR 0x0A] ls) = join_lines (break_chars b) ls"
  using assms
proof (induction "[CHR 0x0A]" ls rule: join_lines.induct)
  case 1
  show ?case by simp
next
  case (2 l)
  then show ?case by (simp add: with_breaks_no_LF)
next
  case (3 l v va)
  then show ?case by (simp add: with_breaks_no_LF with_breaks_Cons)
qed

lemma with_breaks_source_text:
  assumes "\<forall>l\<in>set ls. CHR 0x0A \<notin> set l"
  shows "with_breaks b (source_text [CHR 0x0A] ls) = source_text (break_chars b) ls"
  using with_breaks_join_lines [OF assms, of b]
  by (simp add: source_text_def with_breaks_single)

lemma set_join_lines: "set (join_lines br ls) \<subseteq> set br \<union> \<Union> (set ` set ls)"
  by (induction br ls rule: join_lines.induct) auto

lemma good_source_text:
  assumes "\<forall>l\<in>set ls. CHR 0x0D \<notin> set l"
  shows "good_text (source_text [CHR 0x0A] ls)"
proof -
  have "CHR 0x0D \<notin> set (join_lines [CHR 0x0A] ls)"
    using set_join_lines [of "[CHR 0x0A]" ls] assms by auto
  then show ?thesis by (simp add: good_text_def source_text_def)
qed

lemma relocate_new_Lexer:
  "relocate b (set_columns_per_tab w (new_Lexer t)) = set_columns_per_tab w (new_Lexer (with_breaks b t))"
  by (simp add: relocate_def new_Lexer_def set_columns_per_tab_def)

lemma tracked_new_Lexer:
  assumes "good_text t"
  shows "tracked t (set_columns_per_tab w (new_Lexer t))"
  using assms
  by (simp add: tracked_def placed_def tokenish_def new_Lexer_def set_columns_per_tab_def
      good_text_def)

lemma line_breaks_agree:
  assumes "\<forall>l\<in>set ls. CHR 0x0D \<notin> set l \<and> CHR 0x0A \<notin> set l"
  shows "(\<exists>n. run_fuel n (set_columns_per_tab w (new_Lexer (source_text [CHR 0x0A] ls))) = Some r)
     \<longleftrightarrow> (\<exists>n. run_fuel n (set_columns_per_tab w (new_Lexer (source_text (break_chars b) ls))) = Some r)"
proof -
  from assms have cr: "\<forall>l\<in>set ls. CHR 0x0D \<notin> set l" and lf: "\<forall>l\<in>set ls. CHR 0x0A \<notin> set l"
    by auto
  note good = good_source_text [OF cr]
  note tr = tracked_new_Lexer [OF good, of w]
  have eq: "set_columns_per_tab w (new_Lexer (source_text (break_chars b) ls))
      = relocate b (set_columns_per_tab w (new_Lexer (source_text [CHR 0x0A] ls)))"
    by (simp add: relocate_new_Lexer with_breaks_source_text [OF lf])
  show ?thesis
    unfolding eq
    using run_forward [OF good tr, of _ r b] run_backward [OF good tr, of _ b r]
    by blast
qed

lemma nth_of_drop:
  assumes "drop i xs = ys" and "k < length ys"
  shows "i + k < length xs \<and> xs ! (i + k) = ys ! k"
proof -
  from assms have less: "i + k < length xs" by auto
  then have "xs ! (i + k) = drop i xs ! k" by simp
  with assms(1) less show ?thesis by simp
qed

lemma one_line_break:
  assumes st: "lx_state L = L_start \<or> lx_state L = L_single_line_comment
      \<or> lx_state L = L_multi_line_comment"
    and dr: "drop (lx_index L) (lx_source L) = br @ c # rest"
    and br: "br = [CHR 0x0A] \<or> (br = [CHR 0x0D] \<and> c \<noteq> CHR 0x0A) \<or> br = [CHR 0x0D, CHR 0x0A]"
  shows "\<exists>k L'. lexer_steps k L = Next L'
           \<and> lx_state L' =
               (if lx_state L = L_multi_line_comment then L_multi_line_comment else L_start)
           \<and> lx_index L' = lx_index L + length br
           \<and> lx_line_number L' = lx_line_number L + 1 \<and> lx_column_number L' = 1
           \<and> lx_tokens L' = lx_tokens L"
proof -
  note at = nth_of_drop [OF dr]
  define s' where
    "s' = (if lx_state L = L_multi_line_comment then L_multi_line_comment else L_start)"
  define s1 where
    "s1 = (if lx_state L = L_multi_line_comment then L_multi_line_comment_cr_or_crlf
           else L_cr_or_crlf)"
  define X where "X = (if lx_state L = L_start then start_lexeme L else L)"
  have X: "lx_index X = lx_index L" "lx_source X = lx_source L"
    "lx_line_number X = lx_line_number L" "lx_column_number X = lx_column_number L"
    "lx_tokens X = lx_tokens L" "lx_state X = lx_state L"
    by (simp_all add: X_def start_lexeme_def)
  from at [of 0] br have i: "lx_index L < length (lx_source L)"
    and i1: "Suc (lx_index L) < length (lx_source L)"
    using at [of 1] by auto
  from i have ne: "lx_source L \<noteq> []" by auto
  have cc: "current_char L = lx_source L ! lx_index L" "current_char X = lx_source L ! lx_index L"
    using i by (simp_all add: current_char_def X)
  have adv: "advance_char X = X\<lparr> lx_index := lx_index L + 1,
      lx_column_number := lx_column_number L + 1 \<rparr>"
    using i1 ne by (simp add: advance_char_def size_minus_1_def X)
  from br consider (lf) "br = [CHR 0x0A]" | (cr) "br = [CHR 0x0D]" "c \<noteq> CHR 0x0A"
    | (crlf) "br = [CHR 0x0D, CHR 0x0A]" by blast
  then show ?thesis
  proof cases
    case lf
    with at [of 0] have c0: "lx_source L ! lx_index L = CHR 0x0A" by simp
    have "lexer_step L = Next ((advance_line (advance_char X))\<lparr> lx_state := s' \<rparr>)"
      using st
    proof (elim disjE)
      assume s: "lx_state L = L_start"
      then have "X = start_lexeme L" by (simp add: X_def)
      with s c0 show ?thesis
        by (simp add: lexer_step_def step_start_def Let_def cc s'_def advance_line_def adv X)
    next
      assume s: "lx_state L = L_single_line_comment"
      then have "X = L" by (simp add: X_def)
      with s c0 show ?thesis
        by (simp add: lexer_step_def cc s'_def set_state_def advance_line_def)
    next
      assume s: "lx_state L = L_multi_line_comment"
      then have "X = L" by (simp add: X_def)
      with s c0 show ?thesis
        by (simp add: lexer_step_def cc s'_def advance_line_def adv X)
    qed
    then have "lexer_steps 1 L = Next ((advance_line (advance_char X))\<lparr> lx_state := s' \<rparr>)"
      by simp
    then show ?thesis
      unfolding s'_def [symmetric]
      using lf by (intro exI [of _ 1]) (simp add: adv advance_line_def X)
  next
    case cr
    with at [of 0] at [of 1]
    have c0: "lx_source L ! lx_index L = CHR 0x0D"
      and c1: "lx_source L ! Suc (lx_index L) \<noteq> CHR 0x0A"
      by simp_all
    define M where "M = (advance_char X)\<lparr> lx_state := s1 \<rparr>"
    have 1: "lexer_step L = Next M"
      using st
    proof (elim disjE)
      assume s: "lx_state L = L_start"
      then have "X = start_lexeme L" by (simp add: X_def)
      with s c0 show ?thesis
        by (simp add: lexer_step_def step_start_def Let_def cc s1_def set_state_def M_def)
    next
      assume s: "lx_state L = L_single_line_comment"
      then have "X = L" by (simp add: X_def)
      with s c0 show ?thesis
        by (simp add: lexer_step_def cc s1_def set_state_def M_def)
    next
      assume s: "lx_state L = L_multi_line_comment"
      then have "X = L" by (simp add: X_def)
      with s c0 show ?thesis
        by (simp add: lexer_step_def cc s1_def set_state_def M_def)
    qed
    have cM: "current_char M \<noteq> CHR 0x0A"
      using i1 c1 by (simp add: M_def adv current_char_def X)
    have sM: "lx_state M = s1" by (simp add: M_def)
    have 2: "lexer_step M = Next ((advance_line M)\<lparr> lx_state := s' \<rparr>)"
      using cM sM
      by (simp add: lexer_step_def s1_def s'_def set_state_def split: if_splits)
    have "lexer_steps 2 L = Next ((advance_line M)\<lparr> lx_state := s' \<rparr>)"
      using 1 2 by (simp add: eval_nat_numeral)
    then show ?thesis
      unfolding s'_def [symmetric]
      using cr by (intro exI [of _ 2]) (simp add: M_def adv advance_line_def X)
  next
    case crlf
    with at [of 0] at [of 1] at [of 2]
    have c0: "lx_source L ! lx_index L = CHR 0x0D"
      and c1: "lx_source L ! Suc (lx_index L) = CHR 0x0A"
      and i2: "Suc (Suc (lx_index L)) < length (lx_source L)"
      by (simp_all add: eval_nat_numeral)
    define M where "M = (advance_char X)\<lparr> lx_state := s1 \<rparr>"
    have 1: "lexer_step L = Next M"
      using st
    proof (elim disjE)
      assume s: "lx_state L = L_start"
      then have "X = start_lexeme L" by (simp add: X_def)
      with s c0 show ?thesis
        by (simp add: lexer_step_def step_start_def Let_def cc s1_def set_state_def M_def)
    next
      assume s: "lx_state L = L_single_line_comment"
      then have "X = L" by (simp add: X_def)
      with s c0 show ?thesis
        by (simp add: lexer_step_def cc s1_def set_state_def M_def)
    next
      assume s: "lx_state L = L_multi_line_comment"
      then have "X = L" by (simp add: X_def)
      with s c0 show ?thesis
        by (simp add: lexer_step_def cc s1_def set_state_def M_def)
    qed
    have cM: "current_char M = CHR 0x0A"
      using i1 c1 by (simp add: M_def adv current_char_def X)
    have aM: "advance_char M = M\<lparr> lx_index := lx_index L + 2,
        lx_column_number := lx_column_number L + 2 \<rparr>"
      using i2 ne by (simp add: M_def adv advance_char_def size_minus_1_def X)
    have sM: "lx_state M = s1" by (simp add: M_def)
    have 2: "lexer_step M = Next ((advance_line (advance_char M))\<lparr> lx_state := s' \<rparr>)"
      using cM sM
      by (simp add: lexer_step_def s1_def s'_def set_state_def split: if_splits)
    have "lexer_steps 2 L = Next ((advance_line (advance_char M))\<lparr> lx_state := s' \<rparr>)"
      using 1 2 by (simp add: eval_nat_numeral)
    then have "lexer_steps 2 L = Next ((advance_line (M\<lparr> lx_index := lx_index L + 2,
        lx_column_number := lx_column_number L + 2 \<rparr>))\<lparr> lx_state := s' \<rparr>)"
      by (simp only: aM)
    then show ?thesis
      unfolding s'_def [symmetric]
      using crlf by (intro exI [of _ 2]) (simp add: M_def adv advance_line_def X)
  qed
qed

text \<open>
  Claim C7. The lines \<open>ls\<close> of a logical source text contain neither CR nor LF. Then
  the lexer, with any tab width, returns on the text written with LF line breaks
  exactly what it returns on the text written with CR line breaks and on the text
  written with CR LF line breaks: the same result \<open>r\<close>, which is the same list of
  tokens with the same types, lexemes, lines and columns, if it returns on one of
  them at all. And each style is one line break: a lexer that stands at LF, at CR not
  followed by LF, or at CR LF, in the start state or inside a comment, is after one
  or two iterations behind the line break, with the line counter incremented by 1
  and the column counter at 1, and has added no token; it is in the start state, or
  still in the multi-line comment.
\<close>

theorem line_endings_agree:
  assumes "\<forall>l\<in>set ls. CHR 0x0D \<notin> set l \<and> CHR 0x0A \<notin> set l"
  shows "((\<exists>n. run_fuel n (set_columns_per_tab w (new_Lexer (source_text [CHR 0x0A] ls))) = Some r)
          \<longleftrightarrow> (\<exists>n. run_fuel n (set_columns_per_tab w (new_Lexer (source_text [CHR 0x0D] ls))) = Some r))
       \<and> ((\<exists>n. run_fuel n (set_columns_per_tab w (new_Lexer (source_text [CHR 0x0A] ls))) = Some r)
          \<longleftrightarrow> (\<exists>n. run_fuel n (set_columns_per_tab w
                       (new_Lexer (source_text [CHR 0x0D, CHR 0x0A] ls))) = Some r))
       \<and> (\<forall>L br c rest.
            (lx_state L = L_start \<or> lx_state L = L_single_line_comment
               \<or> lx_state L = L_multi_line_comment)
            \<and> drop (lx_index L) (lx_source L) = br @ c # rest
            \<and> (br = [CHR 0x0A] \<or> (br = [CHR 0x0D] \<and> c \<noteq> CHR 0x0A) \<or> br = [CHR 0x0D, CHR 0x0A])
            \<longrightarrow> (\<exists>k L'. lexer_steps k L = Next L'
                   \<and> lx_state L' =
                       (if lx_state L = L_multi_line_comment then L_multi_line_comment
                        else L_start)
                   \<and> lx_index L' = lx_index L + length br
                   \<and> lx_line_number L' = lx_line_number L + 1 \<and> lx_column_number L' = 1
                   \<and> lx_tokens L' = lx_tokens L))"
proof -
  have a: "(\<exists>n. run_fuel n (set_columns_per_tab w (new_Lexer (source_text [CHR 0x0A] ls))) = Some r)
          \<longleftrightarrow> (\<exists>n. run_fuel n (set_columns_per_tab w (new_Lexer (source_text [CHR 0x0D] ls))) = Some r)"
    using line_breaks_agree [OF assms, of w r False] by (simp add: break_chars_def)
  have b: "(\<exists>n. run_fuel n (set_columns_per_tab w (new_Lexer (source_text [CHR 0x0A] ls))) = Some r)
          \<longleftrightarrow> (\<exists>n. run_fuel n (set_columns_per_tab w
                       (new_Lexer (source_text [CHR 0x0D, CHR 0x0A] ls))) = Some r)"
    using line_breaks_agree [OF assms, of w r True] by (simp add: break_chars_def)
  from a b one_line_break show ?thesis by blast
qed

theorem line_endings_agree_witness:
  "(\<exists>n. run_fuel n (set_columns_per_tab 2 (new_Lexer (source_text [CHR 0x0D] [''a'', ''b''])))
         = Some (Inr [tok T_identifier ''a'' 1 1, tok T_identifier ''b'' 2 1, tok T_end [] 2 2]))
   \<and> (\<exists>n. run_fuel n (set_columns_per_tab 2
                         (new_Lexer (source_text [CHR 0x0D, CHR 0x0A] [''a'', ''b''])))
         = Some (Inr [tok T_identifier ''a'' 1 1, tok T_identifier ''b'' 2 1, tok T_end [] 2 2]))
   \<and> (\<exists>k L'. lexer_steps k (new_Lexer [CHR 0x0D, CHR 0x0A, CHR ''x'', CHR 0x00]) = Next L'
         \<and> lx_state L' = L_start \<and> lx_index L' = 2 \<and> lx_line_number L' = 2
         \<and> lx_column_number L' = 1 \<and> lx_tokens L' = [])"
proof -
  have h: "\<forall>l\<in>set [''a'', ''b'']. CHR 0x0D \<notin> set l \<and> CHR 0x0A \<notin> set l"
    by simp
  note main = line_endings_agree [OF h, of 2
      "Inr [tok T_identifier ''a'' 1 1, tok T_identifier ''b'' 2 1, tok T_end [] 2 2]"]
  have "run_fuel 6 (set_columns_per_tab 2 (new_Lexer (source_text [CHR 0x0A] [''a'', ''b''])))
      = Some (Inr [tok T_identifier ''a'' 1 1, tok T_identifier ''b'' 2 1, tok T_end [] 2 2])"
    by (simp add: source_text_def set_columns_per_tab_def tok_def new_Lexer_def lexer_step_def
        step_start_def single_char_token_def set_state_def
        start_lexeme_def current_char_def advance_char_def advance_line_def
        size_minus_1_def get_lexeme_def add_token_def get_keyword_token_type_def
        isalpha_def isalnum_def Let_def eval_nat_numeral)
  then have lf: "\<exists>n. run_fuel n (set_columns_per_tab 2 (new_Lexer (source_text [CHR 0x0A] [''a'', ''b''])))
      = Some (Inr [tok T_identifier ''a'' 1 1, tok T_identifier ''b'' 2 1, tok T_end [] 2 2])"
    by blast
  define L where "L = new_Lexer [CHR 0x0D, CHR 0x0A, CHR ''x'', CHR 0x00]"
  have L: "lx_state L = L_start \<or> lx_state L = L_single_line_comment
        \<or> lx_state L = L_multi_line_comment"
    "drop (lx_index L) (lx_source L) = [CHR 0x0D, CHR 0x0A] @ CHR ''x'' # [CHR 0x00]"
    "lx_state L \<noteq> L_multi_line_comment" "lx_index L = 0" "lx_line_number L = 1"
    "lx_tokens L = []"
    by (simp_all add: L_def new_Lexer_def)
  from main have "\<forall>L br c rest.
            (lx_state L = L_start \<or> lx_state L = L_single_line_comment
               \<or> lx_state L = L_multi_line_comment)
            \<and> drop (lx_index L) (lx_source L) = br @ c # rest
            \<and> (br = [CHR 0x0A] \<or> (br = [CHR 0x0D] \<and> c \<noteq> CHR 0x0A) \<or> br = [CHR 0x0D, CHR 0x0A])
            \<longrightarrow> (\<exists>k L'. lexer_steps k L = Next L'
                   \<and> lx_state L' =
                       (if lx_state L = L_multi_line_comment then L_multi_line_comment
                        else L_start)
                   \<and> lx_index L' = lx_index L + length br
                   \<and> lx_line_number L' = lx_line_number L + 1 \<and> lx_column_number L' = 1
                   \<and> lx_tokens L' = lx_tokens L)"
    by blast
  from this [rule_format, of L "[CHR 0x0D, CHR 0x0A]" "CHR ''x''" "[CHR 0x00]"] L
  have "\<exists>k L'. lexer_steps k L = Next L'
         \<and> lx_state L' = L_start \<and> lx_index L' = 2 \<and> lx_line_number L' = 2
         \<and> lx_column_number L' = 1 \<and> lx_tokens L' = []"
    by (simp add: numeral_2_eq_2)
  with main lf show ?thesis unfolding L_def by blast
qed

end
